theory Spec2Isabelle
  imports Complex_Main "HOL-Library.Sublist"
begin

section \<open>Python values\<close>

text \<open>
  Exceptions are values: every function of the source that can raise returns
  \<open>py_error + 'a\<close>, with \<open>Inl\<close> the exception.  Python floats are modelled by
  \<open>real\<close> (rounding is not modelled); \<open>float('inf')\<close> as the death of a persistence
  interval is \<open>None\<close> in a \<open>real option\<close>.  \<open>Aborted\<close> stands for a call that ends the
  interpreter inside an extension module.
\<close>

datatype py_error =
    ValueError string
  | AttributeError string
  | NetworkXError
  | TypeError
  | Aborted

text \<open>
  \<^verbatim>\<open>d.get(k, default)\<close> on a dictionary; the attribute dictionaries of the graph
  are association lists.
\<close>

definition dict_get :: "('k \<times> 'v) list \<Rightarrow> 'k \<Rightarrow> 'v \<Rightarrow> 'v" where
  "dict_get d k dflt = (case map_of d k of None \<Rightarrow> dflt | Some v \<Rightarrow> v)"

text \<open>\<^verbatim>\<open>itertools.combinations(xs, 2)\<close>: the pairs of \<open>xs\<close>, in the order of \<open>xs\<close>.\<close>

fun combinations2 :: "'a list \<Rightarrow> ('a \<times> 'a) list" where
  "combinations2 [] = []"
| "combinations2 (x # xs) = map (Pair x) xs @ combinations2 xs"


section \<open>The graph library\<close>

text \<open>
  The graph is an undirected \<^verbatim>\<open>networkx.Graph\<close>.  It is modelled by its adjacency
  structure, the dictionary of dictionaries \<^verbatim>\<open>_adj\<close>, as association lists in
  insertion order: one entry per node, holding the node's neighbours with the
  attribute dictionary of the edge.  Node identifiers are Python integers, attribute
  values are numbers.  The functions below are the library's methods that the source
  calls, written from their documented behaviour.
\<close>

type_synonym vertex = int
type_synonym attrs = "(string \<times> real) list"
type_synonym nx_graph = "(vertex \<times> (vertex \<times> attrs) list) list"

text \<open>\<^verbatim>\<open>graph[u][v]\<close>, the attribute dictionary of an edge; \<open>None\<close> when it is absent.\<close>

definition edge_attrs :: "nx_graph \<Rightarrow> vertex \<Rightarrow> vertex \<Rightarrow> attrs option" where
  "edge_attrs g u v = (case map_of g u of None \<Rightarrow> None | Some nbrs \<Rightarrow> map_of nbrs v)"

text \<open>
  Dictionaries have distinct keys, and the graph is undirected: the attribute
  dictionary stored for \<open>m\<close> under \<open>n\<close> is the one stored for \<open>n\<close> under \<open>m\<close>.
\<close>

definition wf_graph :: "nx_graph \<Rightarrow> bool" where
  "wf_graph g =
     (distinct (map fst g) \<and>
      list_all (\<lambda>(n, nbrs). distinct (map fst nbrs) \<and>
                  list_all (\<lambda>(m, dd). edge_attrs g m n = Some dd) nbrs) g)"

definition nodes :: "nx_graph \<Rightarrow> vertex list" where
  "nodes g = map fst g"

definition has_edge :: "nx_graph \<Rightarrow> vertex \<Rightarrow> vertex \<Rightarrow> bool" where
  "has_edge g u v = (edge_attrs g u v \<noteq> None)"

text \<open>
  \<^verbatim>\<open>graph.neighbors(v)\<close> yields the keys of the adjacency dictionary of \<open>v\<close> and
  raises when \<open>v\<close> is not a node of the graph; \<^verbatim>\<open>graph[v][n]\<close> for such a key is the
  value stored with it.  \<open>neighbor_items\<close> gives the keys with their values.
\<close>

definition neighbor_items :: "nx_graph \<Rightarrow> vertex \<Rightarrow> py_error + (vertex \<times> attrs) list" where
  "neighbor_items g v =
     (case map_of g v of None \<Rightarrow> Inl NetworkXError | Some nbrs \<Rightarrow> Inr nbrs)"

text \<open>
  \<^verbatim>\<open>graph.edges(data=True)\<close> walks the nodes in insertion order and reports, for
  each node, the neighbours that have not been walked yet: an edge is reported once,
  with the endpoint that was inserted first in first position.
\<close>

fun edges_from :: "vertex list \<Rightarrow> nx_graph \<Rightarrow> (vertex \<times> vertex \<times> attrs) list" where
  "edges_from seen [] = []"
| "edges_from seen ((n, nbrs) # rest) =
     map (\<lambda>(nbr, dd). (n, nbr, dd)) (filter (\<lambda>(nbr, dd). nbr \<notin> set seen) nbrs)
     @ edges_from (n # seen) rest"

definition edges :: "nx_graph \<Rightarrow> (vertex \<times> vertex \<times> attrs) list" where
  "edges g = edges_from [] g"

text \<open>
  \<^verbatim>\<open>nx.enumerate_all_cliques(G)\<close> yields every clique of the graph once, as a list
  of nodes in the node order of the graph; cliques of one size come in the
  lexicographic order of their positions, which is the order of \<open>subseqs\<close>.
\<close>

definition enumerate_all_cliques :: "nx_graph \<Rightarrow> vertex list list" where
  "enumerate_all_cliques g =
     filter (\<lambda>c. c \<noteq> [] \<and> list_all (\<lambda>(u, v). has_edge g u v) (combinations2 c))
       (subseqs (nodes g))"


section \<open>The financial sheaf: state\<close>

type_synonym simplex = "vertex list"

text \<open>
  A vertex feature is a Python number (\<^verbatim>\<open>int\<close> or \<^verbatim>\<open>float\<close>), a numpy array, or
  \<open>Other\<close>: an object that is neither and has no arithmetic with numbers, such as a
  string.
\<close>

datatype feature = Num real | NdArray "real list" | Other

text \<open>
  An edge feature is a scalar: a Python \<^verbatim>\<open>int\<close> or \<^verbatim>\<open>float\<close> (\<^verbatim>\<open>np.float64\<close> is one,
  being a subclass of \<^verbatim>\<open>float\<close>), or a numpy scalar that is neither, such as
  \<^verbatim>\<open>np.int64\<close> or \<^verbatim>\<open>np.float32\<close>.  The distinction is what
  \<^verbatim>\<open>isinstance(e_feat, (int, float))\<close> tests.
\<close>

datatype edge_feature = PyNum real | NpNum real

fun edge_value :: "edge_feature \<Rightarrow> real" where
  "edge_value (PyNum y) = y"
| "edge_value (NpNum y) = y"

type_synonym interval = "real \<times> real option"

record intervals =
  H0 :: "interval list"
  H1 :: "interval list"

text \<open>
  The attributes of a \<^verbatim>\<open>FinancialSheaf\<close> object.  An attribute that \<^verbatim>\<open>__init__\<close>
  does not set is \<open>None\<close> until the method that sets it has run, which is what
  \<^verbatim>\<open>hasattr\<close> tests.  The attributes \<^verbatim>\<open>sheaf_data\<close> (a second reference to the two
  feature dictionaries) and \<^verbatim>\<open>filtration_values\<close> are never read and are left out.
\<close>

record FinancialSheaf =
  max_dim :: int
  complex :: "int \<rightharpoonup> simplex list"
  graph :: "nx_graph option"
  vertex_features :: "(vertex \<rightharpoonup> feature) option"
  edge_features :: "(vertex \<times> vertex \<rightharpoonup> edge_feature) option"
  restriction_func :: "(feature \<Rightarrow> edge_feature \<Rightarrow> py_error + real) option"
  persistence_intervals :: "intervals option"

definition FinancialSheaf_init :: "int \<Rightarrow> FinancialSheaf" where
  "FinancialSheaf_init max_simplex_dim =
     \<lparr>max_dim = max_simplex_dim, complex = Map.empty, graph = None,
      vertex_features = None, edge_features = None, restriction_func = None,
      persistence_intervals = None\<rparr>"


section \<open>Building the complex\<close>

definition weight_ok :: "real \<Rightarrow> attrs \<Rightarrow> bool" where
  "weight_ok threshold d = (threshold \<le> dict_get d ''weight'' 1)"

definition filtered_edges :: "nx_graph \<Rightarrow> real \<Rightarrow> (vertex \<times> vertex) list" where
  "filtered_edges g threshold =
     map (\<lambda>(u, v, d). (u, v)) (filter (\<lambda>(u, v, d). weight_ok threshold d) (edges g))"

text \<open>
  \<^verbatim>\<open>graph.has_edge(u, v) and graph[u][v].get('weight', 1) >= threshold\<close>: the
  subscript is evaluated only when the edge is there.
\<close>

definition edge_ok :: "nx_graph \<Rightarrow> real \<Rightarrow> vertex \<Rightarrow> vertex \<Rightarrow> bool" where
  "edge_ok g threshold u v =
     (has_edge g u v \<and>
      (case edge_attrs g u v of None \<Rightarrow> False | Some d \<Rightarrow> weight_ok threshold d))"

definition edges_ok :: "nx_graph \<Rightarrow> real \<Rightarrow> vertex list \<Rightarrow> bool" where
  "edges_ok g threshold clique =
     list_all (\<lambda>(u, v). edge_ok g threshold u v) (combinations2 clique)"

definition simplices_of_dim :: "nx_graph \<Rightarrow> real \<Rightarrow> int \<Rightarrow> simplex list" where
  "simplices_of_dim g threshold k =
     map sort
       (filter (\<lambda>clique. int (length clique) = k + 1 \<and> edges_ok g threshold clique)
          (enumerate_all_cliques g))"

definition build_complex_from_graph ::
  "FinancialSheaf \<Rightarrow> nx_graph \<Rightarrow> real \<Rightarrow> FinancialSheaf" where
  "build_complex_from_graph s g threshold =
     (let vertices = nodes g;
          c0 = (complex s)(0 \<mapsto> map (\<lambda>v. [v]) vertices);
          c1 = c0(1 \<mapsto> map (\<lambda>(u, v). [u, v]) (filtered_edges g threshold));
          c2 = fold (\<lambda>k c. c(k \<mapsto> simplices_of_dim g threshold k))
                 [2..max_dim s] c1
      in s\<lparr>graph := Some g, complex := c2\<rparr>)"


section \<open>Coboundary matrices\<close>

text \<open>The first error of a list of results, or all the values.\<close>

fun sequence_err :: "('e + 'a) list \<Rightarrow> 'e + 'a list" where
  "sequence_err [] = Inr []"
| "sequence_err (Inl e # rs) = Inl e"
| "sequence_err (Inr x # rs) =
     (case sequence_err rs of Inl e \<Rightarrow> Inl e | Inr xs \<Rightarrow> Inr (x # xs))"

text \<open>\<^verbatim>\<open>sigma.index(v)\<close>: the first position of \<open>v\<close>; raises when \<open>v\<close> is absent.\<close>

fun list_index :: "'a list \<Rightarrow> 'a \<Rightarrow> py_error + nat" where
  "list_index [] v = Inl (ValueError ''is not in list'')"
| "list_index (x # xs) v =
     (if x = v then Inr 0
      else (case list_index xs v of Inl e \<Rightarrow> Inl e | Inr i \<Rightarrow> Inr (Suc i)))"

definition orientation_sign :: "simplex \<Rightarrow> simplex \<Rightarrow> py_error + int" where
  "orientation_sign sigma tau =
     (case sequence_err (map (list_index sigma) tau) of
        Inl e \<Rightarrow> Inl e
      | Inr indices \<Rightarrow> Inr ((- 1) ^ sum_list indices))"

text \<open>
  A sparse matrix as the source builds it: its shape and the triples
  (row, column, value) handed to \<^verbatim>\<open>sparse.csr_matrix\<close>.  The entry at a position
  is the sum of the values stored for it.
\<close>

record csr_matrix =
  shape :: "nat \<times> nat"
  triples :: "(nat \<times> nat \<times> int) list"

definition entry :: "csr_matrix \<Rightarrow> nat \<Rightarrow> nat \<Rightarrow> int" where
  "entry M j i =
     sum_list (map (\<lambda>(r, c, x). x) (filter (\<lambda>(r, c, x). r = j \<and> c = i) (triples M)))"

definition coboundary_row :: "simplex list \<Rightarrow> nat \<times> simplex \<Rightarrow> (py_error + nat \<times> nat \<times> int) list" where
  "coboundary_row p_simplices js =
     (case js of (j, sigma) \<Rightarrow>
        concat (map (\<lambda>(i, tau).
                  if set tau \<subseteq> set sigma
                  then [case orientation_sign sigma tau of
                          Inl e \<Rightarrow> Inl e | Inr sign \<Rightarrow> Inr (j, i, sign)]
                  else [])
                (enumerate 0 p_simplices)))"

definition compute_coboundary_matrix :: "FinancialSheaf \<Rightarrow> int \<Rightarrow> py_error + csr_matrix" where
  "compute_coboundary_matrix s k =
     (case complex s k of
        None \<Rightarrow> Inr \<lparr>shape = (0, 0), triples = []\<rparr>
      | Some p_simplices \<Rightarrow>
          (case complex s (k + 1) of
             None \<Rightarrow> Inr \<lparr>shape = (0, 0), triples = []\<rparr>
           | Some p1_simplices \<Rightarrow>
               (case sequence_err
                       (concat (map (coboundary_row p_simplices) (enumerate 0 p1_simplices))) of
                  Inl e \<Rightarrow> Inl e
                | Inr ts \<Rightarrow>
                    Inr \<lparr>shape = (length p1_simplices, length p_simplices), triples = ts\<rparr>)))"

text \<open>The entry at row \<open>j\<close> and column \<open>i\<close> of the matrix product \<open>B A\<close>.\<close>

definition product_entry :: "csr_matrix \<Rightarrow> csr_matrix \<Rightarrow> nat \<Rightarrow> nat \<Rightarrow> int" where
  "product_entry B A j i =
     sum_list (map (\<lambda>k. entry B j k * entry A k i) [0..<fst (shape A)])"


section \<open>Cohomology\<close>

text \<open>
  \<^verbatim>\<open>scipy.sparse.linalg.svds(A, k)\<close> computes \<open>k\<close> singular triplets and accepts
  only \<open>1 \<le> k < min(A.shape)\<close>; any other \<open>k\<close> is a \<^verbatim>\<open>ValueError\<close>.  The numerical
  result is not modelled: an accepted call is recorded with its arguments.
\<close>

datatype svd_call = Svds csr_matrix int

definition svds :: "csr_matrix \<Rightarrow> int \<Rightarrow> py_error + svd_call" where
  "svds A k =
     (if 1 \<le> k \<and> k < int (min (fst (shape A)) (snd (shape A)))
      then Inr (Svds A k)
      else Inl (ValueError ''k must be between 1 and min(A.shape)''))"

text \<open>
  The kernel basis is either \<^verbatim>\<open>np.eye(n)\<close> or the right singular vectors of an
  accepted \<^verbatim>\<open>svds\<close> call whose singular values are below \<open>1e-10\<close>.
\<close>

datatype kernel_basis = Eye nat | Small_singular_vectors svd_call

definition kernel_of_delta :: "csr_matrix \<Rightarrow> py_error + kernel_basis" where
  "kernel_of_delta delta =
     (if 0 < snd (shape delta)
      then (case svds delta (int (min (fst (shape delta)) (snd (shape delta))) - 1) of
              Inl e \<Rightarrow> Inl e
            | Inr r \<Rightarrow> Inr (Small_singular_vectors r))
      else Inr (Eye (snd (shape delta))))"

text \<open>
  \<^verbatim>\<open>compute_cohomology(dim)\<close>.  For \<open>dim = 0\<close> there is no previous coboundary, the
  cohomology basis is the kernel basis, and the result below is the \<^verbatim>\<open>basis\<close> entry of
  the returned dictionary (its other entries are the column counts of that basis and
  the image dimension 0).  For any other \<open>dim\<close> the method, after building both
  coboundary matrices, calls \<^verbatim>\<open>linalg.qr\<close> where \<^verbatim>\<open>linalg\<close> is
  \<^verbatim>\<open>scipy.sparse.linalg\<close>, a module without \<^verbatim>\<open>qr\<close>: the call ends with that
  \<^verbatim>\<open>AttributeError\<close> before the kernel is computed.
\<close>

definition compute_cohomology :: "FinancialSheaf \<Rightarrow> int \<Rightarrow> py_error + kernel_basis" where
  "compute_cohomology s k =
     (case (if k = 0 then Inr None
            else (case compute_coboundary_matrix s (k - 1) of
                    Inl e \<Rightarrow> Inl e | Inr d \<Rightarrow> Inr (Some d))) of
        Inl e \<Rightarrow> Inl e
      | Inr delta_prev \<Rightarrow>
          (case compute_coboundary_matrix s k of
             Inl e \<Rightarrow> Inl e
           | Inr delta \<Rightarrow>
               (case delta_prev of
                  Some d \<Rightarrow>
                    Inl (AttributeError ''module scipy.sparse.linalg has no attribute qr'')
                | None \<Rightarrow> kernel_of_delta delta)))"


section \<open>Sheaf data\<close>

text \<open>\<^verbatim>\<open>np.linalg.norm\<close> of a one-dimensional array.\<close>

definition linalg_norm :: "real list \<Rightarrow> real" where
  "linalg_norm xs = sqrt (sum_list (map (\<lambda>x. x * x) xs))"

text \<open>
  The default restriction function of \<^verbatim>\<open>define_sheaf_data\<close>; the edge feature is a
  scalar, which numpy subtracts from every component of an array.
\<close>

definition default_restriction :: "feature \<Rightarrow> edge_feature \<Rightarrow> py_error + real" where
  "default_restriction v_feat e_feat =
     (case v_feat of
        NdArray xs \<Rightarrow> Inr (linalg_norm (map (\<lambda>x. x - edge_value e_feat) xs))
      | Num x \<Rightarrow> Inr (x - edge_value e_feat)
      | Other \<Rightarrow> Inl TypeError)"

definition define_sheaf_data ::
  "FinancialSheaf \<Rightarrow> (vertex \<rightharpoonup> feature) \<Rightarrow> (vertex \<times> vertex \<rightharpoonup> edge_feature) \<Rightarrow>
     (feature \<Rightarrow> edge_feature \<Rightarrow> py_error + real) option \<Rightarrow> FinancialSheaf" where
  "define_sheaf_data s vf ef rf =
     s\<lparr>vertex_features := Some vf, edge_features := Some ef,
       restriction_func :=
         Some (case rf of None \<Rightarrow> default_restriction | Some f \<Rightarrow> f)\<rparr>"


section \<open>Persistent cohomology\<close>

text \<open>
  The persistence computation itself is the external engine (a \<^verbatim>\<open>gudhi.SimplexTree\<close>):
  it is a parameter \<open>gd\<close>, a function from the \<^verbatim>\<open>insert\<close> calls made on the tree, in
  order, to the list of (dimension, (birth, death)) that \<^verbatim>\<open>persistence\<close> returns.  The
  engine can fail: an \<^verbatim>\<open>insert\<close> raises \<^verbatim>\<open>TypeError\<close> for a node identifier that does
  not fit its vertex type, and can end the interpreter for a negative one; a failure is
  \<open>Inl\<close>.  The argument \<^verbatim>\<open>max_filtration\<close> of the method is never read and is left out.
\<close>

type_synonym insertions = "(simplex \<times> real) list"
type_synonym engine = "insertions \<Rightarrow> py_error + (int \<times> interval) list"

definition edge_insertions :: "nx_graph \<Rightarrow> string \<Rightarrow> insertions" where
  "edge_insertions g filtration_param =
     map (\<lambda>(u, v, data). ([u, v], dict_get data filtration_param 1)) (edges g)"

definition edge_filtrations :: "nx_graph \<Rightarrow> string \<Rightarrow> simplex \<Rightarrow> real list" where
  "edge_filtrations g filtration_param simplex =
     concat (map (\<lambda>(u, v).
                if has_edge g u v
                then (case edge_attrs g u v of
                        None \<Rightarrow> []
                      | Some d \<Rightarrow> [dict_get d filtration_param 1])
                else [])
              (combinations2 simplex))"

definition higher_insertions :: "FinancialSheaf \<Rightarrow> nx_graph \<Rightarrow> string \<Rightarrow> insertions" where
  "higher_insertions s g filtration_param =
     concat (map (\<lambda>k.
        concat (map (\<lambda>simplex.
                  case edge_filtrations g filtration_param simplex of
                    [] \<Rightarrow> []
                  | x # xs \<Rightarrow> [(simplex, fold max xs x)])
                (case complex s k of None \<Rightarrow> [] | Some simplices \<Rightarrow> simplices)))
        [2..max_dim s])"

definition simplex_tree_insertions :: "FinancialSheaf \<Rightarrow> nx_graph \<Rightarrow> string \<Rightarrow> insertions" where
  "simplex_tree_insertions s g filtration_param =
     map (\<lambda>v. ([v], 0)) (nodes g)
     @ edge_insertions g filtration_param
     @ higher_insertions s g filtration_param"

definition compute_persistent_cohomology ::
  "engine \<Rightarrow> FinancialSheaf \<Rightarrow> string \<Rightarrow> py_error + FinancialSheaf \<times> intervals" where
  "compute_persistent_cohomology gd s filtration_param =
     (case graph s of
        None \<Rightarrow> Inl (ValueError ''Build complex first using build_complex_from_graph()'')
      | Some g \<Rightarrow>
          (case gd (simplex_tree_insertions s g filtration_param) of
             Inl e \<Rightarrow> Inl e
           | Inr persistence \<Rightarrow>
               (let ivs = \<lparr>H0 = map snd (filter (\<lambda>(k, bd). k = 0) persistence),
                           H1 = map snd (filter (\<lambda>(k, bd). k = 1) persistence)\<rparr>
                in Inr (s\<lparr>persistence_intervals := Some ivs\<rparr>, ivs))))"


section \<open>Scores\<close>

text \<open>
  The discrepancy computed inline by \<^verbatim>\<open>_estimate_cocycle_norm\<close>: the norm of the array
  minus the absolute edge value when the vertex feature is an array and the edge
  feature a Python number; otherwise the absolute difference when the vertex feature
  is a Python number, and 1.0 in every other case.
\<close>

definition inconsistency :: "feature \<Rightarrow> edge_feature \<Rightarrow> real" where
  "inconsistency v_feat e_feat =
     (case v_feat of
        NdArray xs \<Rightarrow>
          (case e_feat of PyNum y \<Rightarrow> linalg_norm xs - \<bar>y\<bar> | NpNum y \<Rightarrow> 1)
      | Num x \<Rightarrow> \<bar>x - edge_value e_feat\<bar>
      | Other \<Rightarrow> 1)"

definition in_persistence_interval :: "real \<Rightarrow> real option \<Rightarrow> real \<Rightarrow> bool" where
  "in_persistence_interval birth death edge_filtration =
     (birth \<le> edge_filtration \<and>
      edge_filtration \<le> (case death of None \<Rightarrow> birth * 2 | Some d \<Rightarrow> d))"

text \<open>
  The loop of \<^verbatim>\<open>_estimate_cocycle_norm\<close> over the neighbours of the vertex.  The
  neighbour and \<^verbatim>\<open>self.graph[vertex][neighbor]\<close> are the key and the value of one
  entry of the vertex's adjacency dictionary, so the loop runs over the entries.
\<close>

fun estimate_loop ::
  "FinancialSheaf \<Rightarrow> vertex \<Rightarrow> real \<Rightarrow> real option \<Rightarrow> (vertex \<times> attrs) list \<Rightarrow>
     real list \<Rightarrow> py_error + real list" where
  "estimate_loop s vertex birth death [] inconsistencies = Inr inconsistencies"
| "estimate_loop s vertex birth death ((neighbor, edge_data) # rest) inconsistencies =
     (case vertex_features s of
        None \<Rightarrow> Inl (AttributeError ''vertex_features'')
      | Some vf \<Rightarrow>
          (case vf vertex of
             None \<Rightarrow> estimate_loop s vertex birth death rest inconsistencies
           | Some v_feat \<Rightarrow>
               (case edge_features s of
                  None \<Rightarrow> Inl (AttributeError ''edge_features'')
                | Some ef \<Rightarrow>
                    (case ef (vertex, neighbor) of
                       None \<Rightarrow> estimate_loop s vertex birth death rest inconsistencies
                     | Some e_feat \<Rightarrow>
                         (let inc = inconsistency v_feat e_feat;
                              edge_filtration = dict_get edge_data ''weight'' 1;
                              inc' = (if in_persistence_interval birth death edge_filtration
                                      then inc * 2 else inc)
                          in estimate_loop s vertex birth death rest
                               (inconsistencies @ [inc']))))))"

definition mean :: "real list \<Rightarrow> real" where
  "mean xs = sum_list xs / real (length xs)"

definition estimate_cocycle_norm ::
  "FinancialSheaf \<Rightarrow> vertex \<Rightarrow> real \<Rightarrow> real option \<Rightarrow> py_error + real" where
  "estimate_cocycle_norm s vertex birth death =
     (case graph s of
        None \<Rightarrow> Inl (AttributeError ''graph'')
      | Some g \<Rightarrow>
          (case neighbor_items g vertex of
             Inl e \<Rightarrow> Inl e
           | Inr nbrs \<Rightarrow>
               (case estimate_loop s vertex birth death nbrs [] of
                  Inl e \<Rightarrow> Inl e
                | Inr inconsistencies \<Rightarrow>
                    Inr (if inconsistencies = [] then 0 else mean inconsistencies))))"

fun pcr_loop ::
  "FinancialSheaf \<Rightarrow> vertex \<Rightarrow> real \<Rightarrow> real \<Rightarrow> interval list \<Rightarrow> real \<Rightarrow> py_error + real" where
  "pcr_loop s vertex persistence_weight norm_weight [] vertex_pcr = Inr vertex_pcr"
| "pcr_loop s vertex persistence_weight norm_weight ((birth, death) # rest) vertex_pcr =
     (let persistence = (case death of None \<Rightarrow> birth | Some d \<Rightarrow> d - birth)
      in case estimate_cocycle_norm s vertex birth death of
           Inl e \<Rightarrow> Inl e
         | Inr cocycle_norm \<Rightarrow>
             pcr_loop s vertex persistence_weight norm_weight rest
               (vertex_pcr + (persistence_weight * persistence + norm_weight * cocycle_norm)))"

definition compute_pcr_score ::
  "FinancialSheaf \<Rightarrow> vertex \<Rightarrow> real \<Rightarrow> real \<Rightarrow> py_error + real" where
  "compute_pcr_score s vertex persistence_weight norm_weight =
     (case persistence_intervals s of
        None \<Rightarrow> Inl (ValueError ''Compute persistent cohomology first'')
      | Some ivs \<Rightarrow> pcr_loop s vertex persistence_weight norm_weight (H1 ivs) 0)"


section \<open>Risk classes\<close>

record crc =
  crc_id :: nat
  crc_birth :: real
  crc_death :: "real option"
  crc_persistence :: real
  crc_vertices :: "vertex list"
  crc_risk_level :: real

definition find_vertices_in_cycle :: "FinancialSheaf \<Rightarrow> nat \<Rightarrow> py_error + vertex list" where
  "find_vertices_in_cycle s cycle_idx =
     (case graph s of
        None \<Rightarrow> Inl (AttributeError ''graph'')
      | Some g \<Rightarrow>
          (case sequence_err
                  (map (\<lambda>v. case compute_pcr_score s v 1 (1 / 2) of
                               Inl e \<Rightarrow> Inl e | Inr pcr \<Rightarrow> Inr (v, pcr))
                     (nodes g)) of
             Inl e \<Rightarrow> Inl e
           | Inr scored \<Rightarrow>
               Inr (map fst
                      (take 10
                         (sort_key (\<lambda>(v, pcr). - pcr)
                            (filter (\<lambda>(v, pcr). 1 / 2 < pcr) scored))))))"

definition get_risk_classes :: "FinancialSheaf \<Rightarrow> real \<Rightarrow> py_error + crc list" where
  "get_risk_classes s threshold =
     (case persistence_intervals s of
        None \<Rightarrow> Inl (AttributeError ''persistence_intervals'')
      | Some ivs \<Rightarrow>
          sequence_err
            (concat (map (\<lambda>(i, (birth, death)).
                       (let persistence = (case death of None \<Rightarrow> birth | Some d \<Rightarrow> d - birth)
                        in if threshold \<le> persistence
                           then [case find_vertices_in_cycle s i of
                                   Inl e \<Rightarrow> Inl e
                                 | Inr involved_vertices \<Rightarrow>
                                     Inr \<lparr>crc_id = i, crc_birth = birth, crc_death = death,
                                          crc_persistence = persistence,
                                          crc_vertices = involved_vertices,
                                          crc_risk_level = min (persistence * 10) 1\<rparr>]
                           else []))
                     (enumerate 0 (H1 ivs)))))"


section \<open>The scorer\<close>

text \<open>
  The attributes of a \<^verbatim>\<open>PCRScorer\<close> object; \<^verbatim>\<open>results\<close> and the references to the
  feature dictionaries that \<^verbatim>\<open>fit\<close> keeps are never read and are left out.
\<close>

record PCRScorer =
  sheaf :: FinancialSheaf
  filtration_param :: string
  scorer_graph :: "nx_graph option"
  persistence :: "intervals option"
  scores :: "(vertex \<times> real) list option"

definition PCRScorer_init :: "int \<Rightarrow> string \<Rightarrow> PCRScorer" where
  "PCRScorer_init max_dim' filtration_param' =
     \<lparr>sheaf = FinancialSheaf_init max_dim', filtration_param = filtration_param',
      scorer_graph = None, persistence = None, scores = None\<rparr>"

text \<open>
  \<^verbatim>\<open>fit\<close> changes the scorer and its sheaf in place, step by step, so that the steps
  done before an exception stay done: it returns the scorer after the call, and the
  exception when the call raised one.
\<close>

definition fit ::
  "engine \<Rightarrow> PCRScorer \<Rightarrow> nx_graph \<Rightarrow> (vertex \<rightharpoonup> feature) \<Rightarrow>
     (vertex \<times> vertex \<rightharpoonup> edge_feature) \<Rightarrow>
     (feature \<Rightarrow> edge_feature \<Rightarrow> py_error + real) option \<Rightarrow> PCRScorer \<times> py_error option" where
  "fit gd sc g vf ef rf =
     (let s1 = build_complex_from_graph (sheaf sc) g 0;
          s2 = define_sheaf_data s1 vf ef rf
      in case compute_persistent_cohomology gd s2 (filtration_param sc) of
           Inl e \<Rightarrow> (sc\<lparr>sheaf := s2\<rparr>, Some e)
         | Inr (s3, ivs) \<Rightarrow>
             (sc\<lparr>sheaf := s3, persistence := Some ivs, scorer_graph := Some g\<rparr>, None))"

definition compute_all_scores ::
  "PCRScorer \<Rightarrow> real \<Rightarrow> real \<Rightarrow> py_error + PCRScorer \<times> (vertex \<times> real) list" where
  "compute_all_scores sc persistence_weight norm_weight =
     (case scorer_graph sc of
        None \<Rightarrow> Inl (AttributeError ''graph'')
      | Some g \<Rightarrow>
          (case sequence_err
                  (map (\<lambda>vertex.
                          case compute_pcr_score (sheaf sc) vertex persistence_weight norm_weight of
                            Inl e \<Rightarrow> Inl e | Inr score \<Rightarrow> Inr (vertex, score))
                     (nodes g)) of
             Inl e \<Rightarrow> Inl e
           | Inr raw \<Rightarrow>
               (let max_score = (case map snd raw of [] \<Rightarrow> 1 | x # xs \<Rightarrow> fold max xs x);
                    normalized = (if 0 < max_score
                                  then map (\<lambda>(v, s). (v, s / max_score)) raw
                                  else raw)
                in Inr (sc\<lparr>scores := Some normalized\<rparr>, normalized))))"


section \<open>Example graphs\<close>

definition unit_weight :: attrs where
  "unit_weight = [(''weight'', 1)]"

text \<open>
  The triangle built by \<^verbatim>\<open>G.add_edges_from([(2, 0), (0, 1), (1, 2)])\<close> with weight 1.0
  on every edge: the nodes are inserted in the order 2, 0, 1.
\<close>

definition triangle_201 :: nx_graph where
  "triangle_201 =
     [(2, [(0, unit_weight), (1, unit_weight)]),
      (0, [(2, unit_weight), (1, unit_weight)]),
      (1, [(0, unit_weight), (2, unit_weight)])]"

text \<open>A graph with the single node 0 and no edge.\<close>

definition single_node :: nx_graph where
  "single_node = [(0, [])]"

text \<open>
  The 4-cycle built by \<^verbatim>\<open>G.add_edges_from([(0, 1), (1, 2), (2, 3), (3, 0)])\<close> with
  weight 1.0 on every edge.
\<close>

definition square :: nx_graph where
  "square =
     [(0, [(1, unit_weight), (3, unit_weight)]),
      (1, [(0, unit_weight), (2, unit_weight)]),
      (2, [(1, unit_weight), (3, unit_weight)]),
      (3, [(2, unit_weight), (0, unit_weight)])]"

text \<open>
  The persistence of the 4-cycle with all filtration values 1: one component that
  never dies, three that die at 1, and one cycle born at 1 that never dies.
\<close>

definition square_engine :: engine where
  "square_engine ins =
     Inr [(1, (1, None)), (0, (0, None)), (0, (0, Some 1)), (0, (0, Some 1)), (0, (0, Some 1))]"

text \<open>
  Features for the 4-cycle: every vertex has the array \<^verbatim>\<open>np.array([1.0])\<close>, every edge,
  under the key that \<^verbatim>\<open>G.edges()\<close> reports, the Python float 10.0.
\<close>

definition square_vertex_features :: "vertex \<rightharpoonup> feature" where
  "square_vertex_features =
     [0 \<mapsto> NdArray [1], 1 \<mapsto> NdArray [1], 2 \<mapsto> NdArray [1], 3 \<mapsto> NdArray [1]]"

definition square_edge_features :: "vertex \<times> vertex \<rightharpoonup> edge_feature" where
  "square_edge_features =
     [(0, 1) \<mapsto> PyNum 10, (0, 3) \<mapsto> PyNum 10, (1, 2) \<mapsto> PyNum 10, (2, 3) \<mapsto> PyNum 10]"

text \<open>
  The triangle built by \<^verbatim>\<open>G.add_edges_from([(0, 1), (1, 2), (2, 0)])\<close> with the
  weights 1.0, 3.0 and 2.0, and the same graph object after the caller has run
  \<^verbatim>\<open>G.remove_edge(1, 2)\<close>.
\<close>

definition weighted_triangle :: nx_graph where
  "weighted_triangle =
     [(0, [(1, [(''weight'', 1)]), (2, [(''weight'', 2)])]),
      (1, [(0, [(''weight'', 1)]), (2, [(''weight'', 3)])]),
      (2, [(1, [(''weight'', 3)]), (0, [(''weight'', 2)])])]"

definition weighted_triangle_cut :: nx_graph where
  "weighted_triangle_cut =
     [(0, [(1, [(''weight'', 1)]), (2, [(''weight'', 2)])]),
      (1, [(0, [(''weight'', 1)])]),
      (2, [(0, [(''weight'', 2)])])]"


text \<open>
  The 4-cycle with sheaf data in which only vertex 0 has a vertex feature and, of its
  two neighbours 1 and 3, only the key (0, 1) has an edge feature.
\<close>

definition partly_featured_sheaf :: FinancialSheaf where
  "partly_featured_sheaf =
     define_sheaf_data (build_complex_from_graph (FinancialSheaf_init 2) square 0)
       [0 \<mapsto> Num 5] [(0, 1) \<mapsto> PyNum 2] None"

text \<open>
  The graph built by \<^verbatim>\<open>G.add_edge(0, 1, time=7.0)\<close>, whose edge has no \<^verbatim>\<open>weight\<close>, with
  the vertex feature 5 and the edge feature 2 and the default restriction function.
\<close>

definition timed_edge :: nx_graph where
  "timed_edge = [(0, [(1, [(''time'', 7)])]), (1, [(0, [(''time'', 7)])])]"

definition timed_sheaf :: FinancialSheaf where
  "timed_sheaf =
     define_sheaf_data (build_complex_from_graph (FinancialSheaf_init 2) timed_edge 0)
       [0 \<mapsto> Num 5] [(0, 1) \<mapsto> PyNum 2] None"

text \<open>An engine whose first \<^verbatim>\<open>insert\<close> raises.\<close>

definition failing_engine :: engine where
  "failing_engine ins = Inl TypeError"


section \<open>The cocycle-norm estimate in closed form\<close>

text \<open>
  The discrepancies that \<^verbatim>\<open>_estimate_cocycle_norm\<close> collects, written without the
  loop: one value per neighbour entry for which the vertex has a feature and the key
  (vertex, neighbour) has an edge feature; the value is the built-in discrepancy
  \<open>inconsistency\<close>, doubled when the \<^verbatim>\<open>weight\<close> of the edge (1.0 when absent) lies in
  the persistence interval.
\<close>

definition weighted_inconsistencies ::
  "(vertex \<rightharpoonup> feature) \<Rightarrow> (vertex \<times> vertex \<rightharpoonup> edge_feature) \<Rightarrow> vertex \<Rightarrow> real \<Rightarrow>
     real option \<Rightarrow> (vertex \<times> attrs) list \<Rightarrow> real list" where
  "weighted_inconsistencies vf ef vertex birth death nbrs =
     concat (map (\<lambda>(neighbor, d).
               case vf vertex of
                 None \<Rightarrow> []
               | Some v_feat \<Rightarrow>
                   (case ef (vertex, neighbor) of
                      None \<Rightarrow> []
                    | Some e_feat \<Rightarrow>
                        [if in_persistence_interval birth death (dict_get d ''weight'' 1)
                         then 2 * inconsistency v_feat e_feat
                         else inconsistency v_feat e_feat]))
             nbrs)"

text \<open>
  The estimate as the specification words it: the mean, over the incident edges with
  available features, of the attached restriction function applied to the vertex
  feature and the edge feature, doubled when the filtration value of the edge lies in
  the persistence interval, and 0 when there is no such edge.
\<close>

definition spec_cocycle_norm_estimate ::
  "FinancialSheaf \<Rightarrow> string \<Rightarrow> vertex \<Rightarrow> real \<Rightarrow> real option \<Rightarrow> py_error + real" where
  "spec_cocycle_norm_estimate s param vertex birth death =
     (case (graph s, vertex_features s, edge_features s, restriction_func s) of
        (Some g, Some vf, Some ef, Some rho) \<Rightarrow>
          (case neighbor_items g vertex of
             Inl e \<Rightarrow> Inl e
           | Inr nbrs \<Rightarrow>
               (case sequence_err
                       (concat (map (\<lambda>(neighbor, d).
                          case vf vertex of
                            None \<Rightarrow> []
                          | Some v_feat \<Rightarrow>
                              (case ef (vertex, neighbor) of
                                 None \<Rightarrow> []
                               | Some e_feat \<Rightarrow>
                                   [case rho v_feat e_feat of
                                      Inl e \<Rightarrow> Inl e
                                    | Inr r \<Rightarrow>
                                        Inr (if in_persistence_interval birth death
                                                  (dict_get d param 1)
                                             then 2 * r else r)]))
                        nbrs)) of
                  Inl e \<Rightarrow> Inl e
                | Inr ds \<Rightarrow> Inr (if ds = [] then 0 else mean ds)))
      | _ \<Rightarrow> Inl (AttributeError ''not fitted''))"

text \<open>
  A sheaf on the 4-cycle with the constant restriction function 0: vertex 0 has the
  feature 5, the edge (0, 1) the feature 2, both Python numbers.
\<close>

definition constant_zero_sheaf :: FinancialSheaf where
  "constant_zero_sheaf =
     define_sheaf_data (build_complex_from_graph (FinancialSheaf_init 2) square 0)
       [0 \<mapsto> Num 5] [(0, 1) \<mapsto> PyNum 2] (Some (\<lambda>v_feat e_feat. Inr 0))"


section \<open>Auxiliary notions for the coboundary matrices\<close>

text \<open>
  The triangle of the test suite, built by
  \<^verbatim>\<open>G.add_edges_from([(0, 1), (1, 2), (2, 0)])\<close> with weight 1.0 on every edge: the
  nodes are inserted in the order 0, 1, 2.
\<close>

definition triangle_012 :: nx_graph where
  "triangle_012 =
     [(0, [(1, unit_weight), (2, unit_weight)]),
      (1, [(0, unit_weight), (2, unit_weight)]),
      (2, [(1, unit_weight), (0, unit_weight)])]"

text \<open>
  In a sorted list without repetition the position of an element is the number of
  smaller elements.  \<open>face_sign\<close> is the entry of a coboundary matrix as a total
  function: the sign when the second simplex is a face of the first, and 0 otherwise.
\<close>

definition smaller :: "int set \<Rightarrow> int \<Rightarrow> nat" where
  "smaller S v = card {u \<in> S. u < v}"

definition face_sign :: "simplex \<Rightarrow> simplex \<Rightarrow> int" where
  "face_sign sigma tau =
     (if set tau \<subseteq> set sigma then (- 1) ^ sum_list (map (smaller (set sigma)) tau) else 0)"

text \<open>The triples of one row, with the signs as values, and the sum stored at a position.\<close>

definition row_triples :: "simplex list \<Rightarrow> nat \<Rightarrow> nat \<Rightarrow> simplex \<Rightarrow> (nat \<times> nat \<times> int) list" where
  "row_triples p_simplices n j sigma =
     concat (map (\<lambda>(i, tau). if set tau \<subseteq> set sigma then [(j, i, face_sign sigma tau)] else [])
               (enumerate n p_simplices))"

definition pick :: "nat \<Rightarrow> nat \<Rightarrow> (nat \<times> nat \<times> int) list \<Rightarrow> int" where
  "pick j i ts = sum_list (map (\<lambda>(r, c, x). x) (filter (\<lambda>(r, c, x). r = j \<and> c = i) ts))"


section \<open>Stored order of simplices\<close>

lemma wf_graph_triangle_201: "wf_graph triangle_201"
  by code_simp

text \<open>
  Claim C7: every simplex of the built complex, 1-simplices included, is stored with its
  vertices in sorted order, and no two simplices of a dimension have the same vertex
  set.  The second part holds (\<open>built_complex_vertex_sets_distinct\<close> below).  For the
  first, the builder sorts the cliques of dimension 2 and more
  (\<open>simplices_of_dim_shape\<close> below), but stores a 1-simplex as the graph reports the edge.  For the triangle whose nodes were inserted in the
  order 2, 0, 1 the stored 1-simplices are [2, 0], [2, 1] and [0, 1], and [2, 0] is not
  sorted, while the 2-simplex is stored as [0, 1, 2].
\<close>

theorem C7_edge_simplices_stored_unsorted:
  "complex (build_complex_from_graph (FinancialSheaf_init 2) triangle_201 0) 1
     = Some [[2, 0], [2, 1], [0, 1]]
   \<and> complex (build_complex_from_graph (FinancialSheaf_init 2) triangle_201 0) 2
     = Some [[0, 1, 2]]
   \<and> \<not> sorted [2, 0 :: int]"
  by code_simp


section \<open>Composition of coboundary matrices\<close>

lemma coboundary_0_triangle_201:
  "compute_coboundary_matrix (build_complex_from_graph (FinancialSheaf_init 2) triangle_201 0) 0
     = Inr \<lparr>shape = (3, 3),
            triples = [(0, 0, 1), (0, 1, - 1), (1, 0, 1), (1, 2, - 1), (2, 1, 1), (2, 2, - 1)]\<rparr>"
  by code_simp

lemma coboundary_1_triangle_201:
  "compute_coboundary_matrix (build_complex_from_graph (FinancialSheaf_init 2) triangle_201 0) 1
     = Inr \<lparr>shape = (1, 3), triples = [(0, 0, 1), (0, 1, - 1), (0, 2, - 1)]\<rparr>"
  by code_simp

text \<open>
  Claim C1: for every built complex and every valid dimension \<open>p\<close>, the product of the
  coboundary matrices of dimensions \<open>p + 1\<close> and \<open>p\<close> is the zero matrix.  For the
  triangle whose nodes were inserted in the order 2, 0, 1 and \<open>p = 0\<close>, both matrices
  are built without error and the only row of their product is (0, -2, 2): the columns
  of the vertices 0 and 1 are not zero.  The product is zero whenever the graph reports
  every edge with the smaller endpoint first (\<open>built_coboundary_composition_zero\<close>
  below): what breaks the property is the unsorted 1-simplex.
\<close>

theorem C1_coboundary_composition_nonzero:
  "(case (compute_coboundary_matrix
            (build_complex_from_graph (FinancialSheaf_init 2) triangle_201 0) 1,
          compute_coboundary_matrix
            (build_complex_from_graph (FinancialSheaf_init 2) triangle_201 0) 0) of
      (Inr delta1, Inr delta0) \<Rightarrow> Some (map (product_entry delta1 delta0 0) [0, 1, 2])
    | _ \<Rightarrow> None)
   = Some [0, - 2, 2]"
  by code_simp


section \<open>Degenerate coboundary shapes\<close>

lemma kernel_of_delta_no_columns:
  "snd (shape delta) = 0 \<Longrightarrow> kernel_of_delta delta = Inr (Eye 0)"
  by (simp add: kernel_of_delta_def)

lemma kernel_of_delta_no_rows:
  "fst (shape delta) = 0 \<Longrightarrow> 0 < snd (shape delta) \<Longrightarrow>
     kernel_of_delta delta = Inl (ValueError ''k must be between 1 and min(A.shape)'')"
  by (simp add: kernel_of_delta_def svds_def)

text \<open>
  Claim C6: \<^verbatim>\<open>compute_cohomology(p)\<close> handles a coboundary matrix with no columns
  or with no rows without error, returning the identity basis or the whole cochain
  space.  For the graph with one node and no edge and \<open>p = 0\<close>, the coboundary matrix
  has no row and one column; the branch for a matrix with columns is taken, the
  singular value routine is asked for \<open>min(0, 1) - 1 = -1\<close> values, and the call ends
  with that routine's error.
\<close>

theorem C6_zero_rows_raises:
  "(case compute_coboundary_matrix
           (build_complex_from_graph (FinancialSheaf_init 2) single_node 0) 0 of
      Inl e \<Rightarrow> None | Inr delta \<Rightarrow> Some (shape delta))
   = Some (0, 1)
   \<and> compute_cohomology
        (build_complex_from_graph (FinancialSheaf_init 2) single_node 0) 0
     = Inl (ValueError ''k must be between 1 and min(A.shape)'')"
  by code_simp

text \<open>
  In every dimension other than 0 the method raises: an error of one of the two
  coboundary computations, or the missing \<^verbatim>\<open>qr\<close>.
\<close>

lemma compute_cohomology_positive_dim_raises:
  "k \<noteq> 0 \<Longrightarrow> \<exists>e. compute_cohomology s k = Inl e"
  by (simp add: compute_cohomology_def split: sum.splits)

lemma compute_cohomology_triangle_dim_1:
  "compute_cohomology (build_complex_from_graph (FinancialSheaf_init 2) triangle_201 0) 1
     = Inl (AttributeError ''module scipy.sparse.linalg has no attribute qr'')"
  by code_simp


section \<open>Queries before fitting\<close>

lemma compute_persistent_cohomology_not_built:
  "graph s = None \<Longrightarrow>
     compute_persistent_cohomology gd s param
       = Inl (ValueError ''Build complex first using build_complex_from_graph()'')"
  by (simp add: compute_persistent_cohomology_def)

lemma compute_pcr_score_not_computed:
  "persistence_intervals s = None \<Longrightarrow>
     compute_pcr_score s vertex persistence_weight norm_weight
       = Inl (ValueError ''Compute persistent cohomology first'')"
  by (simp add: compute_pcr_score_def)

text \<open>
  Claim C9: a query made before fitting is reported as the distinct "not fitted"
  condition.  \<^verbatim>\<open>compute_persistent_cohomology\<close> and \<^verbatim>\<open>compute_pcr_score\<close> test for
  the missing attribute and raise their \<^verbatim>\<open>ValueError\<close> (the two lemmas above);
  \<^verbatim>\<open>get_risk_classes\<close> has no such test and, on a sheaf that was just created, ends
  with the \<^verbatim>\<open>AttributeError\<close> of reading \<^verbatim>\<open>persistence_intervals\<close>.
\<close>

theorem C9_get_risk_classes_unfitted:
  "get_risk_classes (FinancialSheaf_init 2) (1 / 10)
     = Inl (AttributeError ''persistence_intervals'')"
  by (simp add: get_risk_classes_def FinancialSheaf_init_def)


section \<open>Normalised scores\<close>

lemma linalg_norm_one: "linalg_norm [1] = 1"
  by (simp add: linalg_norm_def)

text \<open>
  Claim C3: every value returned by \<^verbatim>\<open>compute_all_scores\<close> lies in [0, 1].  On the
  4-cycle with unit weights, vertex features \<^verbatim>\<open>np.array([1.0])\<close> and edge features
  10.0, fitted and scored with the default weights 1.0 and 0.5, the discrepancy of an
  edge is \<open>1 - 10 = -9\<close>, doubled to \<open>-18\<close>; the vertices 0, 1 and 2 get the raw score
  \<open>1 + 0.5 * (-18) = -8\<close>, vertex 3 gets 1, the maximum is 1, and the returned scores
  are -8, -8, -8 and 1.  The values do lie in [0, 1] when no raw score is negative
  (\<open>compute_all_scores_unit_interval\<close> below).
\<close>

theorem C3_scores_outside_unit_interval:
  "(case fit square_engine (PCRScorer_init 2 ''weight'') square
           square_vertex_features square_edge_features None of
      (sc, Some e) \<Rightarrow> Inl e
    | (sc, None) \<Rightarrow> map_sum id snd (compute_all_scores sc 1 (1 / 2)))
   = Inr [(0, - 8), (1, - 8), (2, - 8), (3, 1)]"
  by (simp add: fit_def compute_persistent_cohomology_def build_complex_from_graph_def
      define_sheaf_data_def square_engine_def Let_def compute_all_scores_def
      compute_pcr_score_def estimate_cocycle_norm_def neighbor_items_def nodes_def square_def
      square_vertex_features_def square_edge_features_def inconsistency_def
      linalg_norm_one in_persistence_interval_def dict_get_def unit_weight_def mean_def
      PCRScorer_init_def FinancialSheaf_init_def)


section \<open>The built complex\<close>

lemma graph_build [simp]: "graph (build_complex_from_graph s g threshold) = Some g"
  by (simp add: build_complex_from_graph_def Let_def)

lemma max_dim_build [simp]: "max_dim (build_complex_from_graph s g threshold) = max_dim s"
  by (simp add: build_complex_from_graph_def Let_def)

lemma fold_map_upd:
  "fold (\<lambda>k c. c(k \<mapsto> f k)) ks c x = (if x \<in> set ks then Some (f x) else c x)"
  by (induction ks arbitrary: c) auto

lemma complex_build_higher:
  "2 \<le> k \<Longrightarrow> k \<le> max_dim s \<Longrightarrow>
     complex (build_complex_from_graph s g threshold) k = Some (simplices_of_dim g threshold k)"
  by (simp add: build_complex_from_graph_def Let_def fold_map_upd)

lemma complex_build_1:
  "complex (build_complex_from_graph s g threshold) 1
     = Some (map (\<lambda>(u, v). [u, v]) (filtered_edges g threshold))"
  by (simp add: build_complex_from_graph_def Let_def fold_map_upd)

lemma complex_build_0:
  "complex (build_complex_from_graph s g threshold) 0 = Some (map (\<lambda>v. [v]) (nodes g))"
  by (simp add: build_complex_from_graph_def Let_def fold_map_upd)

lemma complex_build_other:
  "k < 0 \<or> max 1 (max_dim s) < k \<Longrightarrow>
     complex (build_complex_from_graph s g threshold) k = complex s k"
  by (auto simp add: build_complex_from_graph_def Let_def fold_map_upd)

lemma combinations2_in_set:
  "(a, b) \<in> set (combinations2 xs) \<Longrightarrow> a \<in> set xs \<and> b \<in> set xs"
  by (induction xs) auto

lemma subseq_set_subset: "subseq ys xs \<Longrightarrow> set ys \<subseteq> set xs"
  by (induction rule: list_emb.induct) auto

lemma combinations2_subseq:
  "subseq ys xs \<Longrightarrow> set (combinations2 ys) \<subseteq> set (combinations2 xs)"
proof (induction rule: list_emb.induct)
  case (list_emb_Cons2 x y xs ys)
  then show ?case using subseq_set_subset[of xs ys] by auto
qed auto

lemma edges_from_complete:
  "distinct (map fst g) \<Longrightarrow> set (map fst g) \<inter> set seen = {} \<Longrightarrow>
   (a, b) \<in> set (combinations2 (map fst g)) \<Longrightarrow> map_of g a = Some nbrs \<Longrightarrow>
   (b, d) \<in> set nbrs \<Longrightarrow> (a, b, d) \<in> set (edges_from seen g)"
proof (induction g arbitrary: seen)
  case Nil
  then show ?case by simp
next
  case (Cons e g)
  obtain n nb where e: "e = (n, nb)" by (cases e)
  show ?case
  proof (cases "a = n")
    case True
    with Cons.prems e have "nb = nbrs" by simp
    moreover have "b \<in> set (map fst g)"
      using Cons.prems e True combinations2_in_set[of a b "map fst g"] by auto
    then have "b \<notin> set seen" using Cons.prems(2) e by auto
    ultimately show ?thesis using Cons.prems(5) e True by force
  next
    case False
    with Cons.prems e have 1: "(a, b) \<in> set (combinations2 (map fst g))" by auto
    have 2: "map_of g a = Some nbrs" using Cons.prems(4) e False by simp
    have 3: "set (map fst g) \<inter> set (n # seen) = {}" using Cons.prems(1,2) e by auto
    have "(a, b, d) \<in> set (edges_from (n # seen) g)"
      using Cons.IH[OF _ 3 1 2 Cons.prems(5)] Cons.prems(1) by simp
    then show ?thesis using e by simp
  qed
qed

lemma edges_from_sound:
  "(u, v, d) \<in> set (edges_from seen g) \<Longrightarrow> \<exists>nbrs. (u, nbrs) \<in> set g \<and> (v, d) \<in> set nbrs"
  by (induction seen g rule: edges_from.induct) auto

lemma wf_graph_neighbor_is_node:
  assumes "wf_graph g" "(u, nbrs) \<in> set g" "(v, d) \<in> set nbrs"
  shows "v \<in> set (nodes g)"
proof -
  have "edge_attrs g v u = Some d"
    using assms by (auto simp: wf_graph_def list_all_iff)
  then have "map_of g v \<noteq> None" by (auto simp: edge_attrs_def split: option.splits)
  then show ?thesis by (auto simp: nodes_def map_of_eq_None_iff)
qed

lemma edge_in_complex_1:
  assumes "distinct (map fst g)" "(a, b) \<in> set (combinations2 (nodes g))" "edge_ok g threshold a b"
  shows "[a, b] \<in> set (map (\<lambda>(u, v). [u, v]) (filtered_edges g threshold))"
proof -
  from assms(3) obtain d where d: "edge_attrs g a b = Some d" "weight_ok threshold d"
    by (auto simp: edge_ok_def split: option.splits)
  then obtain nbrs where n: "map_of g a = Some nbrs" "map_of nbrs b = Some d"
    by (auto simp: edge_attrs_def split: option.splits)
  have "(a, b, d) \<in> set (edges g)"
    unfolding edges_def
    using edges_from_complete[OF assms(1) _ _ n(1) map_of_SomeD[OF n(2)], of "[]"] assms(2)
    by (simp add: nodes_def)
  then have "(a, b) \<in> set (filtered_edges g threshold)"
    using d(2) by (force simp: filtered_edges_def)
  then show ?thesis by force
qed

lemma clique_face:
  assumes "distinct (nodes g)" "c \<in> set (enumerate_all_cliques g)" "edges_ok g threshold c"
    and "F \<subseteq> set c" "F \<noteq> {}"
  defines "c' \<equiv> filter (\<lambda>x. x \<in> F) c"
  shows "c' \<in> set (enumerate_all_cliques g) \<and> edges_ok g threshold c' \<and> set c' = F
         \<and> length c' = card F \<and> subseq c' (nodes g)"
proof -
  have sub: "subseq c (nodes g)" and cl: "list_all (\<lambda>(u, v). has_edge g u v) (combinations2 c)"
    using assms(2) by (auto simp: enumerate_all_cliques_def)
  have dc: "distinct c" using sub assms(1) subseqs_distinctD[of c "nodes g"] by simp
  have s1: "subseq c' c" by (simp add: c'_def)
  then have s2: "subseq c' (nodes g)" using sub subseq_order.trans by blast
  have set': "set c' = F" using assms(4) by (auto simp: c'_def)
  have len: "length c' = card F"
  proof -
    have "{x. x \<in> F} \<inter> set c = F" using assms(4) by auto
    then show ?thesis using distinct_length_filter[OF dc, of "\<lambda>x. x \<in> F"] by (simp add: c'_def)
  qed
  have ne: "c' \<noteq> []" using set' assms(5) by auto
  have pairs: "set (combinations2 c') \<subseteq> set (combinations2 c)"
    using combinations2_subseq[OF s1] .
  have "list_all (\<lambda>(u, v). has_edge g u v) (combinations2 c')"
    using cl pairs by (auto simp: list_all_iff)
  moreover have "edges_ok g threshold c'"
    using assms(3) pairs by (auto simp: edges_ok_def list_all_iff)
  ultimately show ?thesis using s2 ne set' len by (simp add: enumerate_all_cliques_def)
qed

lemma faces_of_built_complex:
  assumes wf: "wf_graph g"
    and k: "0 < k" "k \<le> max 1 (max_dim s)"
    and sig: "complex (build_complex_from_graph s g threshold) k = Some simplices"
             "sigma \<in> set simplices"
    and F: "F \<subseteq> set sigma" "int (card F) = k"
  shows "\<exists>faces tau. complex (build_complex_from_graph s g threshold) (k - 1) = Some faces
           \<and> tau \<in> set faces \<and> set tau = F"
proof (cases "k = 1")
  case True
  with sig obtain u v where uv: "sigma = [u, v]" "(u, v) \<in> set (filtered_edges g threshold)"
    by (auto simp: complex_build_1)
  then obtain d where "(u, v, d) \<in> set (edges g)" by (auto simp: filtered_edges_def)
  then obtain nbrs where nb: "(u, nbrs) \<in> set g" "(v, d) \<in> set nbrs"
    using edges_from_sound[of u v d "[]" g] by (auto simp: edges_def)
  have un: "u \<in> set (nodes g)" using nb(1) by (force simp: nodes_def)
  have vn: "v \<in> set (nodes g)" using wf_graph_neighbor_is_node[OF wf nb] .
  from F True have "card F = 1" by simp
  then obtain x where x: "F = {x}" by (auto simp: card_1_singleton_iff)
  with F(1) uv(1) have "x \<in> set (nodes g)" using un vn by auto
  then have "[x] \<in> set (map (\<lambda>v. [v]) (nodes g))" by auto
  then show ?thesis using True x by (auto simp: complex_build_0 intro!: exI[of _ "[x]"])
next
  case False
  with k have k2: "2 \<le> k" "k \<le> max_dim s" by auto
  have dn: "distinct (nodes g)" using wf by (simp add: wf_graph_def nodes_def)
  from sig k2 obtain c where c: "sigma = sort c" "c \<in> set (enumerate_all_cliques g)"
      "int (length c) = k + 1" "edges_ok g threshold c"
    by (auto simp: complex_build_higher simplices_of_dim_def)
  have Fc: "F \<subseteq> set c" using F(1) c(1) by simp
  have Fne: "F \<noteq> {}" using F(2) k(1) by auto
  define c' where "c' = filter (\<lambda>x. x \<in> F) c"
  have c': "c' \<in> set (enumerate_all_cliques g)" "edges_ok g threshold c'" "set c' = F"
      "length c' = card F" "subseq c' (nodes g)"
    using clique_face[OF dn c(2) c(4) Fc Fne] by (simp_all add: c'_def)
  show ?thesis
  proof (cases "k = 2")
    case True
    with c'(4) F(2) have "length c' = 2" by simp
    then obtain a b where ab: "c' = [a, b]"
      by (cases c'; cases "tl c'"; cases "tl (tl c')") auto
    have "(a, b) \<in> set (combinations2 (nodes g))"
      using combinations2_subseq[OF c'(5)] ab by auto
    moreover have "edge_ok g threshold a b" using c'(2) ab by (simp add: edges_ok_def)
    ultimately have "[a, b] \<in> set (map (\<lambda>(u, v). [u, v]) (filtered_edges g threshold))"
      using edge_in_complex_1 dn by (simp add: nodes_def)
    moreover have "set [a, b] = F" using c'(3) ab by simp
    ultimately show ?thesis using True by (auto simp: complex_build_1 simp del: set_simps intro!: exI[of _ "[a, b]"])
  next
    case False
    with k2 have k3: "2 \<le> k - 1" "k - 1 \<le> max_dim s" by auto
    have "int (length c') = (k - 1) + 1" using c'(4) F(2) by simp
    then have "sort c' \<in> set (simplices_of_dim g threshold (k - 1))"
      using c'(1,2) by (auto simp: simplices_of_dim_def simp del: of_nat_eq_iff)
    moreover have "set (sort c') = F" using c'(3) by simp
    ultimately show ?thesis using complex_build_higher[OF k3] by blast
  qed
qed

text \<open>
  Claim C8: the complex returned by \<^verbatim>\<open>build_complex_from_graph\<close> is face-closed, for
  every graph (an undirected graph of the library, \<open>wf_graph\<close>), threshold and maximal
  dimension: for every simplex \<open>sigma\<close> of a dimension \<open>k > 0\<close> and every set \<open>F\<close> of
  \<open>k\<close> of its vertices (a face of dimension \<open>k - 1\<close>), a simplex with the vertex set
  \<open>F\<close> is stored in dimension \<open>k - 1\<close>.
\<close>

theorem C8_complex_face_closed:
  assumes "wf_graph g"
    and "complex (build_complex_from_graph (FinancialSheaf_init m) g threshold) k = Some simplices"
    and "0 < k" and "sigma \<in> set simplices" and "F \<subseteq> set sigma" and "int (card F) = k"
  shows "\<exists>faces tau.
           complex (build_complex_from_graph (FinancialSheaf_init m) g threshold) (k - 1) = Some faces
           \<and> tau \<in> set faces \<and> set tau = F"
proof -
  have "k \<le> max 1 (max_dim (FinancialSheaf_init m))"
  proof (rule ccontr)
    assume "\<not> ?thesis"
    then have "k < 0 \<or> max 1 (max_dim (FinancialSheaf_init m)) < k" by linarith
    then have "complex (build_complex_from_graph (FinancialSheaf_init m) g threshold) k
                 = complex (FinancialSheaf_init m) k"
      by (rule complex_build_other)
    then show False using assms(2) by (simp add: FinancialSheaf_init_def)
  qed
  then show ?thesis using faces_of_built_complex[OF assms(1,3) _ assms(2,4,5,6)] by simp
qed


theorem C8_complex_face_closed_witness:
  "wf_graph triangle_201
   \<and> complex (build_complex_from_graph (FinancialSheaf_init 2) triangle_201 0) 2 = Some [[0, 1, 2]]
   \<and> (\<exists>faces tau.
         complex (build_complex_from_graph (FinancialSheaf_init 2) triangle_201 0) (2 - 1)
           = Some faces
         \<and> tau \<in> set faces \<and> set tau = {0, 2})"
proof -
  have c: "complex (build_complex_from_graph (FinancialSheaf_init 2) triangle_201 0) 2
             = Some [[0, 1, 2]]"
    by code_simp
  have "\<exists>faces tau.
          complex (build_complex_from_graph (FinancialSheaf_init 2) triangle_201 0) (2 - 1)
            = Some faces
          \<and> tau \<in> set faces \<and> set tau = {0, 2}"
    using C8_complex_face_closed[OF wf_graph_triangle_201 c, of "[0, 1, 2]" "{0, 2}"] by simp
  then show ?thesis using wf_graph_triangle_201 c by blast
qed


section \<open>Fitting\<close>

lemma complex_define_sheaf_data [simp]:
  "complex (define_sheaf_data s vf ef rf) = complex s"
  by (simp add: define_sheaf_data_def)

lemma sheaf_after_fit:
  "complex (sheaf (fst (fit gd sc g vf ef rf)))
     = complex (build_complex_from_graph (sheaf sc) g 0)"
  by (simp add: fit_def compute_persistent_cohomology_def define_sheaf_data_def Let_def
      split: sum.splits prod.splits)

text \<open>
  Claim C10: \<^verbatim>\<open>PCRScorer.fit\<close> builds the complex with the threshold 0.0, whatever its
  arguments and whether or not the later persistence step raises: the complex of the
  scorer's sheaf after the call is the one \<^verbatim>\<open>build_complex_from_graph\<close> makes for the
  threshold 0, its 1-simplices are the edges that pass the threshold 0, and every edge
  of the graph whose weight (1 when the attribute is absent) is not negative is one of
  them.  \<^verbatim>\<open>fit\<close> has no argument from which another threshold could come.
\<close>

theorem C10_fit_threshold_zero:
  "complex (sheaf (fst (fit gd sc g vf ef rf)))
     = complex (build_complex_from_graph (sheaf sc) g 0)
   \<and> complex (sheaf (fst (fit gd sc g vf ef rf))) 1
       = Some (map (\<lambda>(u, v). [u, v]) (filtered_edges g 0))
   \<and> (\<forall>u v d. (u, v, d) \<in> set (edges g) \<and> 0 \<le> dict_get d ''weight'' 1 \<longrightarrow>
         [u, v] \<in> set (map (\<lambda>(u, v). [u, v]) (filtered_edges g 0)))"
proof (intro conjI allI impI)
  show "complex (sheaf (fst (fit gd sc g vf ef rf)))
          = complex (build_complex_from_graph (sheaf sc) g 0)"
    by (rule sheaf_after_fit)
  then show "complex (sheaf (fst (fit gd sc g vf ef rf))) 1
          = Some (map (\<lambda>(u, v). [u, v]) (filtered_edges g 0))"
    by (simp add: complex_build_1)
next
  fix u v d
  assume "(u, v, d) \<in> set (edges g) \<and> 0 \<le> dict_get d ''weight'' 1"
  then have "(u, v) \<in> set (filtered_edges g 0)"
    by (force simp: filtered_edges_def weight_ok_def)
  then show "[u, v] \<in> set (map (\<lambda>(u, v). [u, v]) (filtered_edges g 0))" by force
qed

theorem C10_fit_threshold_zero_witness:
  "(2, 0, unit_weight) \<in> set (edges triangle_201)
   \<and> 0 \<le> dict_get unit_weight ''weight'' 1
   \<and> snd (fit failing_engine (PCRScorer_init 2 ''weight'') triangle_201
             Map.empty Map.empty None) = Some TypeError
   \<and> complex (sheaf (fst (fit failing_engine (PCRScorer_init 2 ''weight'') triangle_201
                            Map.empty Map.empty None))) 1
       = Some [[2, 0], [2, 1], [0, 1]]
   \<and> [2, 0] \<in> set (map (\<lambda>(u, v). [u, v]) (filtered_edges triangle_201 0))"
proof -
  have e: "(2, 0, unit_weight) \<in> set (edges triangle_201)" by code_simp
  have w: "0 \<le> dict_get unit_weight ''weight'' 1" by (simp add: dict_get_def unit_weight_def)
  have f: "filtered_edges triangle_201 0 = [(2, 0), (2, 1), (0, 1)]" by code_simp
  have r: "snd (fit failing_engine (PCRScorer_init 2 ''weight'') triangle_201
                  Map.empty Map.empty None) = Some TypeError"
    by (simp add: fit_def compute_persistent_cohomology_def define_sheaf_data_def Let_def
        failing_engine_def)
  note t = C10_fit_threshold_zero[of failing_engine "PCRScorer_init 2 ''weight''" triangle_201
      Map.empty Map.empty None]
  have 1: "complex (sheaf (fst (fit failing_engine (PCRScorer_init 2 ''weight'') triangle_201
                                  Map.empty Map.empty None))) 1
             = Some [[2, 0], [2, 1], [0, 1]]"
    using t[THEN conjunct2, THEN conjunct1] f by simp
  have 2: "[2, 0] \<in> set (map (\<lambda>(u, v). [u, v]) (filtered_edges triangle_201 0))"
    using t[THEN conjunct2, THEN conjunct2, rule_format, of 2 0 unit_weight] e w by blast
  show ?thesis using e w r 1 2 by blast
qed


section \<open>The cocycle-norm estimate\<close>

lemma estimate_loop_closed_form:
  assumes "vertex_features s = Some vf" "edge_features s = Some ef"
  shows "estimate_loop s vertex birth death nbrs acc
           = Inr (acc @ weighted_inconsistencies vf ef vertex birth death nbrs)"
  using assms
proof (induction nbrs arbitrary: acc)
  case Nil
  then show ?case by (simp add: weighted_inconsistencies_def)
next
  case (Cons e nbrs)
  obtain n d where e: "e = (n, d)" by (cases e)
  have tl: "weighted_inconsistencies vf ef vertex birth death (e # nbrs)
        = weighted_inconsistencies vf ef vertex birth death [e]
          @ weighted_inconsistencies vf ef vertex birth death nbrs"
    by (simp add: weighted_inconsistencies_def)
  show ?case
    unfolding tl e
    using Cons.prems Cons.IH[OF Cons.prems]
    by (simp add: weighted_inconsistencies_def Let_def split: option.splits)
qed

lemma estimate_cocycle_norm_closed_form:
  assumes "graph s = Some g" and "neighbor_items g vertex = Inr nbrs"
    and "vertex_features s = Some vf" and "edge_features s = Some ef"
  shows "estimate_cocycle_norm s vertex birth death
           = Inr (if weighted_inconsistencies vf ef vertex birth death nbrs = [] then 0
                  else mean (weighted_inconsistencies vf ef vertex birth death nbrs))"
proof -
  have "estimate_loop s vertex birth death nbrs []
          = Inr ([] @ weighted_inconsistencies vf ef vertex birth death nbrs)"
    by (rule estimate_loop_closed_form) (simp_all add: assms)
  then show ?thesis using assms by (simp add: estimate_cocycle_norm_def)
qed

text \<open>
  The estimate does not read \<^verbatim>\<open>restriction_func\<close>: it is the same whatever function is
  attached to the sheaf.
\<close>

lemma estimate_loop_restriction_func:
  "estimate_loop (s\<lparr>restriction_func := rf\<rparr>) vertex birth death nbrs acc
     = estimate_loop s vertex birth death nbrs acc"
  by (induction nbrs arbitrary: acc) (auto simp: Let_def split: option.splits)

lemma estimate_cocycle_norm_restriction_func:
  "estimate_cocycle_norm (s\<lparr>restriction_func := rf\<rparr>) vertex birth death
     = estimate_cocycle_norm s vertex birth death"
  by (simp add: estimate_cocycle_norm_def estimate_loop_restriction_func
      split: option.splits sum.splits)

text \<open>
  The inline discrepancy is \<^verbatim>\<open>norm(v_feat) - abs(e_feat)\<close> only when the edge feature is
  a Python number; for an array and a numpy scalar such as \<^verbatim>\<open>np.int64(2)\<close> it is 1.0.
\<close>

lemma inconsistency_numpy_scalar:
  "inconsistency (NdArray xs) (NpNum y) = 1"
  by (simp add: inconsistency_def)

text \<open>
  Claim C2: the cocycle-norm estimate is the mean, over the incident edges with
  available features, of the attached restriction function applied to the vertex
  feature and the edge feature, doubled when the filtration value of the edge lies in
  the persistence interval.  On the 4-cycle with unit weights, with the constant
  function 0 attached by \<^verbatim>\<open>define_sheaf_data\<close> as restriction function, the vertex
  feature 5 and the edge feature 2, every discrepancy of the claim is 0 and so is its
  mean; for vertex 0 and the interval (1, infinity) the code returns
  \<open>2 * |5 - 2| = 6\<close>.  The method computes a discrepancy of its own and never calls
  the attached function.
\<close>

theorem C2_restriction_function_ignored:
  "estimate_cocycle_norm constant_zero_sheaf 0 1 None = Inr 6
   \<and> spec_cocycle_norm_estimate constant_zero_sheaf ''weight'' 0 1 None = Inr 0"
  by (simp add: constant_zero_sheaf_def estimate_cocycle_norm_def spec_cocycle_norm_estimate_def
      neighbor_items_def
      define_sheaf_data_def square_def inconsistency_def in_persistence_interval_def
      dict_get_def unit_weight_def mean_def)

text \<open>
  The doubling reads the attribute \<^verbatim>\<open>weight\<close> of the edge, whatever the filtration
  parameter of the model is.  For an edge with \<^verbatim>\<open>time\<close> 7 and no \<^verbatim>\<open>weight\<close>, a model
  fitted on \<^verbatim>\<open>time\<close> and the interval (7, infinity), the code compares the default 1.0
  with the interval and returns \<open>|5 - 2| = 3\<close>; with the filtration value 7 of the edge
  and the default restriction function the estimate is \<open>2 * (5 - 2) = 6\<close>.
\<close>

lemma estimate_reads_weight_attribute:
  "estimate_cocycle_norm timed_sheaf 0 7 None = Inr 3
   \<and> spec_cocycle_norm_estimate timed_sheaf ''time'' 0 7 None = Inr 6"
  by (simp add: timed_sheaf_def timed_edge_def estimate_cocycle_norm_def
      spec_cocycle_norm_estimate_def neighbor_items_def define_sheaf_data_def
      default_restriction_def inconsistency_def in_persistence_interval_def
      dict_get_def mean_def)


section \<open>Filtration values of higher simplices\<close>

lemma in_set_concat_map: "y \<in> set (concat (map f xs)) \<longleftrightarrow> (\<exists>x\<in>set xs. y \<in> set (f x))"
  by auto

lemma higher_insertions_iff:
  "(simplex, f) \<in> set (higher_insertions s g param) \<longleftrightarrow>
     (\<exists>k simplices. 2 \<le> k \<and> k \<le> max_dim s \<and> complex s k = Some simplices \<and> simplex \<in> set simplices)
     \<and> (\<exists>x xs. edge_filtrations g param simplex = x # xs \<and> f = fold max xs x)"
proof -
  have mem: "(simplex, f) \<in> set (higher_insertions s g param) \<longleftrightarrow>
      (\<exists>k\<in>{2..max_dim s}.
         \<exists>sx\<in>set (case complex s k of None \<Rightarrow> [] | Some simplices \<Rightarrow> simplices).
           (simplex, f) \<in> set (case edge_filtrations g param sx of
                                   [] \<Rightarrow> [] | x # xs \<Rightarrow> [(sx, fold max xs x)]))"
    by (simp only: higher_insertions_def in_set_concat_map set_upto)
  have A: "sx \<in> set (case complex s k of None \<Rightarrow> [] | Some simplices \<Rightarrow> simplices) \<longleftrightarrow>
             (\<exists>simplices. complex s k = Some simplices \<and> sx \<in> set simplices)" for sx k
    by (cases "complex s k") simp_all
  have B: "(simplex, f) \<in> set (case edge_filtrations g param sx of
                                   [] \<Rightarrow> [] | x # xs \<Rightarrow> [(sx, fold max xs x)]) \<longleftrightarrow>
             sx = simplex \<and> (\<exists>x xs. edge_filtrations g param simplex = x # xs \<and> f = fold max xs x)"
    for sx
    by (cases "edge_filtrations g param sx") auto
  show ?thesis unfolding mem A B Bex_def atLeastAtMost_iff by blast
qed

lemma set_edge_filtrations:
  "set (edge_filtrations g param simplex)
     = {dict_get d param 1 |u v d. (u, v) \<in> set (combinations2 simplex) \<and> edge_attrs g u v = Some d}"
proof (rule set_eqI)
  fix x
  have C: "x \<in> set (if has_edge g u v
                     then (case edge_attrs g u v of None \<Rightarrow> [] | Some d \<Rightarrow> [dict_get d param 1])
                     else []) \<longleftrightarrow>
             (\<exists>d. edge_attrs g u v = Some d \<and> x = dict_get d param 1)" for u v
    by (cases "edge_attrs g u v") (auto simp: has_edge_def)
  have "x \<in> set (edge_filtrations g param simplex) \<longleftrightarrow>
          (\<exists>p\<in>set (combinations2 simplex).
             x \<in> set (if has_edge g (fst p) (snd p)
                       then (case edge_attrs g (fst p) (snd p) of
                               None \<Rightarrow> [] | Some d \<Rightarrow> [dict_get d param 1])
                       else []))"
    by (simp only: edge_filtrations_def in_set_concat_map case_prod_beta)
  also have "\<dots> \<longleftrightarrow> (\<exists>p\<in>set (combinations2 simplex).
                        \<exists>d. edge_attrs g (fst p) (snd p) = Some d \<and> x = dict_get d param 1)"
    unfolding C ..
  also have "\<dots> \<longleftrightarrow> x \<in> {dict_get d param 1 |u v d.
                       (u, v) \<in> set (combinations2 simplex) \<and> edge_attrs g u v = Some d}"
    by force
  finally show "x \<in> set (edge_filtrations g param simplex) \<longleftrightarrow>
     x \<in> {dict_get d param 1 |u v d. (u, v) \<in> set (combinations2 simplex) \<and> edge_attrs g u v = Some d}" .
qed

lemma combinations2_distinct:
  "distinct xs \<Longrightarrow> (u, v) \<in> set (combinations2 xs) \<Longrightarrow> u \<noteq> v"
  by (induction xs) (auto dest: combinations2_in_set)

lemma combinations2_total:
  "u \<in> set xs \<Longrightarrow> v \<in> set xs \<Longrightarrow> u \<noteq> v \<Longrightarrow>
     (u, v) \<in> set (combinations2 xs) \<or> (v, u) \<in> set (combinations2 xs)"
  by (induction xs) auto

lemma wf_graph_has_edge_sym:
  assumes "wf_graph g" "has_edge g u v"
  shows "has_edge g v u"
proof -
  from assms(2) obtain nbrs d where "map_of g u = Some nbrs" "map_of nbrs v = Some d"
    by (auto simp: has_edge_def edge_attrs_def split: option.splits)
  then have "(u, nbrs) \<in> set g" "(v, d) \<in> set nbrs" by (auto dest: map_of_SomeD)
  then have "edge_attrs g v u = Some d"
    using assms(1) by (auto simp: wf_graph_def list_all_iff)
  then show ?thesis by (simp add: has_edge_def)
qed

lemma built_simplex_edges_present:
  assumes wf: "wf_graph g" and "sigma \<in> set (simplices_of_dim g threshold k)"
    and uv: "(u, v) \<in> set (combinations2 sigma)"
  shows "has_edge g u v"
proof -
  from assms(2) obtain c where c: "sigma = sort c" "c \<in> set (enumerate_all_cliques g)"
    by (auto simp: simplices_of_dim_def)
  have dn: "distinct (nodes g)" using wf by (simp add: wf_graph_def nodes_def)
  have sub: "subseq c (nodes g)" and cl: "list_all (\<lambda>(u, v). has_edge g u v) (combinations2 c)"
    using c(2) by (auto simp: enumerate_all_cliques_def)
  have dc: "distinct c" using sub dn subseqs_distinctD[of c "nodes g"] by simp
  have ne: "u \<noteq> v" using combinations2_distinct[of sigma u v] uv dc c(1) by simp
  have "u \<in> set c" "v \<in> set c" using combinations2_in_set[OF uv] c(1) by auto
  then have "(u, v) \<in> set (combinations2 c) \<or> (v, u) \<in> set (combinations2 c)"
    using ne by (rule combinations2_total)
  then show ?thesis using cl wf_graph_has_edge_sym[OF wf] by (auto simp: list_all_iff)
qed

text \<open>
  Claim C4, as stated, says that a simplex of dimension 2 or more is left out of the
  persistence computation whenever one of its pairwise edges is missing from the
  graph.  The sheaf below was built from the weighted triangle, and the caller has
  then removed the edge (1, 2) from the graph object that the sheaf refers to: the
  edge is missing, and the 2-simplex [0, 1, 2] is still inserted, with the larger of
  the two remaining edge values.
\<close>

theorem C4_simplex_with_missing_edge_inserted:
  "\<not> has_edge weighted_triangle_cut 1 2
   \<and> complex (build_complex_from_graph (FinancialSheaf_init 2) weighted_triangle 0) 2 = Some [[0, 1, 2]]
   \<and> higher_insertions
        ((build_complex_from_graph (FinancialSheaf_init 2) weighted_triangle 0)
           \<lparr>graph := Some weighted_triangle_cut\<rparr>)
        weighted_triangle_cut ''weight''
      = [([0, 1, 2], 2)]"
  by code_simp

text \<open>
  Claim C4, amended: for a simplex of a dimension between 2 and \<open>max_dim\<close> taken from
  the complex, the values collected are those of its pairwise edges that are in the
  graph (the chosen attribute, 1.0 when absent); the simplex is inserted exactly when
  at least one of its pairwise edges is in the graph, and then with the maximum of the
  collected values; and in a complex built from this graph (a well-formed one) all
  its pairwise edges are in the graph, so that the maximum is over all of them.
\<close>

theorem C4_higher_simplex_filtration:
  assumes "2 \<le> k" and "k \<le> max_dim s" and "complex s k = Some simplices"
    and "simplex \<in> set simplices"
  shows "set (edge_filtrations g param simplex)
           = {dict_get d param 1 |u v d.
                (u, v) \<in> set (combinations2 simplex) \<and> edge_attrs g u v = Some d}
         \<and> (\<forall>f. (simplex, f) \<in> set (higher_insertions s g param) \<longleftrightarrow>
                  edge_filtrations g param simplex \<noteq> []
                  \<and> f = Max (set (edge_filtrations g param simplex)))
         \<and> (wf_graph g \<and> s = build_complex_from_graph s0 g threshold \<longrightarrow>
              list_all (\<lambda>(u, v). has_edge g u v) (combinations2 simplex)
              \<and> edge_filtrations g param simplex \<noteq> [])"
proof (intro conjI allI impI)
  show "set (edge_filtrations g param simplex)
           = {dict_get d param 1 |u v d.
                (u, v) \<in> set (combinations2 simplex) \<and> edge_attrs g u v = Some d}"
    by (rule set_edge_filtrations)
next
  fix f
  have "\<exists>k simplices. 2 \<le> k \<and> k \<le> max_dim s \<and> complex s k = Some simplices \<and> simplex \<in> set simplices"
    using assms by blast
  then have "(simplex, f) \<in> set (higher_insertions s g param) \<longleftrightarrow>
     (\<exists>x xs. edge_filtrations g param simplex = x # xs \<and> f = fold max xs x)"
    by (simp add: higher_insertions_iff)
  also have "\<dots> \<longleftrightarrow> edge_filtrations g param simplex \<noteq> []
                  \<and> f = Max (set (edge_filtrations g param simplex))"
    using Max.set_eq_fold[of _ _, symmetric, where 'a = real]
    by (cases "edge_filtrations g param simplex") (auto simp del: set_simps)
  finally show "(simplex, f) \<in> set (higher_insertions s g param) \<longleftrightarrow>
                  edge_filtrations g param simplex \<noteq> []
                  \<and> f = Max (set (edge_filtrations g param simplex))" .
next
  assume a: "wf_graph g \<and> s = build_complex_from_graph s0 g threshold"
  then have "k \<le> max_dim s0" using assms(2) by simp
  then have sig: "simplex \<in> set (simplices_of_dim g threshold k)"
    using assms a by (simp add: complex_build_higher)
  then show all: "list_all (\<lambda>(u, v). has_edge g u v) (combinations2 simplex)"
    using built_simplex_edges_present a by (auto simp: list_all_iff)
  have "int (length simplex) = k + 1" using sig by (auto simp: simplices_of_dim_def)
  then have "2 \<le> length simplex" using assms(1) by linarith
  then obtain x y zs where "simplex = x # y # zs"
    by (cases simplex; cases "tl simplex") auto
  then have "(x, y) \<in> set (combinations2 simplex)" by simp
  then have "has_edge g x y" using all by (auto simp: list_all_iff)
  then obtain d where "edge_attrs g x y = Some d" by (auto simp: has_edge_def)
  then have "dict_get d param 1 \<in> set (edge_filtrations g param simplex)"
    using \<open>(x, y) \<in> set (combinations2 simplex)\<close> by (auto simp: set_edge_filtrations)
  then show "edge_filtrations g param simplex \<noteq> []" by auto
qed


lemma wf_graph_weighted_triangle: "wf_graph weighted_triangle"
  by code_simp

theorem C4_higher_simplex_filtration_witness:
  "complex (build_complex_from_graph (FinancialSheaf_init 2) weighted_triangle 0) 2 = Some [[0, 1, 2]]
   \<and> wf_graph weighted_triangle
   \<and> ([0, 1, 2], 3) \<in> set (higher_insertions
                               (build_complex_from_graph (FinancialSheaf_init 2) weighted_triangle 0)
                               weighted_triangle ''weight'')
   \<and> list_all (\<lambda>(u, v). has_edge weighted_triangle u v) (combinations2 [0, 1, 2])"
proof -
  let ?S = "build_complex_from_graph (FinancialSheaf_init 2) weighted_triangle 0"
  have c: "complex ?S 2 = Some [[0, 1, 2]]" by code_simp
  have m: "2 \<le> max_dim ?S" by (simp add: FinancialSheaf_init_def)
  have ef: "edge_filtrations weighted_triangle ''weight'' [0, 1, 2] = [1, 2, 3]" by code_simp
  have mx: "Max (set [1, 2, 3 :: real]) = 3" by simp
  note t = C4_higher_simplex_filtration[OF order_refl m c, of "[0, 1, 2]" weighted_triangle
      "''weight''" "FinancialSheaf_init 2" 0]
  have "([0, 1, 2], 3) \<in> set (higher_insertions ?S weighted_triangle ''weight'')"
    using t unfolding ef mx by simp
  moreover have "list_all (\<lambda>(u, v). has_edge weighted_triangle u v) (combinations2 [0, 1, 2])"
    using t wf_graph_weighted_triangle by simp
  ultimately show ?thesis using c wf_graph_weighted_triangle by blast
qed


section \<open>Missing data\<close>

lemma weighted_inconsistencies_empty:
  "vf vertex = None \<or> list_all (\<lambda>(n, d). ef (vertex, n) = None) nbrs \<Longrightarrow>
     weighted_inconsistencies vf ef vertex birth death nbrs = []"
  by (auto simp: weighted_inconsistencies_def list_all_iff split: option.splits)

lemma weighted_inconsistencies_filter:
  "vf vertex = Some v_feat \<Longrightarrow>
     weighted_inconsistencies vf ef vertex birth death nbrs
       = map (\<lambda>(n, d). (if in_persistence_interval birth death (dict_get d ''weight'' 1)
                          then 2 else 1) * inconsistency v_feat (the (ef (vertex, n))))
           (filter (\<lambda>(n, d). ef (vertex, n) \<noteq> None) nbrs)"
  by (induction nbrs) (auto simp: weighted_inconsistencies_def split: option.splits)

text \<open>
  Claim C5, as stated, says that a missing feature or an unknown filtration parameter
  name is reported as a configuration error and that no default is substituted.
  Fitting the 4-cycle with the unknown parameter name \<^verbatim>\<open>volume\<close> and empty feature
  dictionaries, and scoring it, raises nothing and returns the score 1 for every
  vertex; and the edges of the weighted triangle, whose weights are 1, 2 and 3, all get
  the filtration value 1.0 under that name.
\<close>

theorem C5_defaults_substituted_silently:
  "(case fit square_engine (PCRScorer_init 2 ''volume'') square Map.empty Map.empty None of
      (sc, Some e) \<Rightarrow> Inl e
    | (sc, None) \<Rightarrow> map_sum id snd (compute_all_scores sc 1 (1 / 2)))
   = Inr [(0, 1), (1, 1), (2, 1), (3, 1)]
   \<and> edge_insertions weighted_triangle ''volume'' = [([0, 1], 1), ([0, 2], 1), ([1, 2], 1)]"
  by (simp add: fit_def compute_persistent_cohomology_def build_complex_from_graph_def
      define_sheaf_data_def square_engine_def Let_def compute_all_scores_def
      compute_pcr_score_def estimate_cocycle_norm_def neighbor_items_def nodes_def square_def
      PCRScorer_init_def FinancialSheaf_init_def edge_insertions_def edges_def
      weighted_triangle_def dict_get_def)

text \<open>
  Claim C5, amended: missing data is not reported, a default is used or the entry is
  left out.  Once the complex is built, \<^verbatim>\<open>compute_persistent_cohomology\<close> raises, for
  every filtration parameter name, exactly what the persistence engine raises and
  nothing else, and an edge without that attribute is inserted with the filtration
  value 1.0.  With feature dictionaries attached, the cocycle-norm estimate of a vertex
  of the graph is 0 when the vertex has no vertex feature; otherwise it is the mean of
  the discrepancies of those neighbours only whose lookup in the edge features
  succeeds (the sum of their discrepancies divided by their number), and 0 when there
  is none: a neighbour without an edge feature adds nothing to the sum and nothing to
  the count.
\<close>

theorem C5_missing_data_defaults:
  assumes "graph s = Some g"
  shows "(case compute_persistent_cohomology gd s param of
            Inl e \<Rightarrow> Some e | Inr r \<Rightarrow> None)
           = (case gd (simplex_tree_insertions s g param) of
                Inl e \<Rightarrow> Some e | Inr r \<Rightarrow> None)
         \<and> (\<forall>u v d. (u, v, d) \<in> set (edges g) \<and> map_of d param = None \<longrightarrow>
               ([u, v], 1) \<in> set (simplex_tree_insertions s g param))
         \<and> (\<forall>vertex nbrs vf ef.
               neighbor_items g vertex = Inr nbrs \<and> vertex_features s = Some vf
               \<and> edge_features s = Some ef \<longrightarrow>
               estimate_cocycle_norm s vertex birth death
                 = Inr (case vf vertex of
                          None \<Rightarrow> 0
                        | Some v_feat \<Rightarrow>
                            (let avail = filter (\<lambda>(n, d). ef (vertex, n) \<noteq> None) nbrs
                             in if avail = [] then 0
                                else sum_list
                                       (map (\<lambda>(n, d).
                                          (if in_persistence_interval birth death
                                                (dict_get d ''weight'' 1)
                                           then 2 else 1)
                                          * inconsistency v_feat (the (ef (vertex, n))))
                                        avail)
                                     / real (length avail))))"
proof (intro conjI allI impI)
  show "(case compute_persistent_cohomology gd s param of
           Inl e \<Rightarrow> Some e | Inr r \<Rightarrow> None)
          = (case gd (simplex_tree_insertions s g param) of
               Inl e \<Rightarrow> Some e | Inr r \<Rightarrow> None)"
    using assms by (simp add: compute_persistent_cohomology_def Let_def split: sum.splits)
next
  fix u v d
  assume a: "(u, v, d) \<in> set (edges g) \<and> map_of d param = None"
  then have "([u, v], dict_get d param 1) \<in> set (edge_insertions g param)"
    by (force simp: edge_insertions_def)
  then show "([u, v], 1) \<in> set (simplex_tree_insertions s g param)"
    using a by (simp add: simplex_tree_insertions_def dict_get_def)
next
  fix vertex nbrs vf ef
  assume a: "neighbor_items g vertex = Inr nbrs \<and> vertex_features s = Some vf
             \<and> edge_features s = Some ef"
  have c: "estimate_cocycle_norm s vertex birth death
             = Inr (if weighted_inconsistencies vf ef vertex birth death nbrs = [] then 0
                    else mean (weighted_inconsistencies vf ef vertex birth death nbrs))"
    using estimate_cocycle_norm_closed_form assms a by blast
  show "estimate_cocycle_norm s vertex birth death
          = Inr (case vf vertex of
                   None \<Rightarrow> 0
                 | Some v_feat \<Rightarrow>
                     (let avail = filter (\<lambda>(n, d). ef (vertex, n) \<noteq> None) nbrs
                      in if avail = [] then 0
                         else sum_list
                                (map (\<lambda>(n, d).
                                   (if in_persistence_interval birth death
                                         (dict_get d ''weight'' 1)
                                    then 2 else 1)
                                   * inconsistency v_feat (the (ef (vertex, n))))
                                 avail)
                              / real (length avail)))"
  proof (cases "vf vertex")
    case None
    then have "weighted_inconsistencies vf ef vertex birth death nbrs = []"
      by (simp add: weighted_inconsistencies_empty)
    then show ?thesis using c None by simp
  next
    case (Some v_feat)
    show ?thesis
      unfolding c weighted_inconsistencies_filter[of vf vertex v_feat, OF Some]
      using Some by (simp add: mean_def Let_def)
  qed
qed

theorem C5_missing_data_defaults_witness:
  "graph partly_featured_sheaf = Some square
   \<and> (0, 1, unit_weight) \<in> set (edges square) \<and> map_of unit_weight ''volume'' = None
   \<and> ([0, 1], 1) \<in> set (simplex_tree_insertions partly_featured_sheaf square ''volume'')
   \<and> neighbor_items square 0 = Inr [(1, unit_weight), (3, unit_weight)]
   \<and> (\<exists>r. compute_persistent_cohomology square_engine partly_featured_sheaf ''volume''
             = Inr r)
   \<and> estimate_cocycle_norm partly_featured_sheaf 0 1 None = Inr 6
   \<and> estimate_cocycle_norm partly_featured_sheaf 1 1 None = Inr 0"
proof -
  have g: "graph partly_featured_sheaf = Some square"
    by (simp add: partly_featured_sheaf_def define_sheaf_data_def)
  have e: "(0, 1, unit_weight) \<in> set (edges square)" by code_simp
  have m: "map_of unit_weight ''volume'' = None" by (simp add: unit_weight_def)
  have n0: "neighbor_items square 0 = Inr [(1, unit_weight), (3, unit_weight)]"
    by (simp add: neighbor_items_def square_def)
  have n1: "neighbor_items square 1 = Inr [(0, unit_weight), (2, unit_weight)]"
    by (simp add: neighbor_items_def square_def)
  have vf: "vertex_features partly_featured_sheaf = Some [0 \<mapsto> Num 5]"
    by (simp add: partly_featured_sheaf_def define_sheaf_data_def)
  have ef: "edge_features partly_featured_sheaf = Some [(0, 1) \<mapsto> PyNum 2]"
    by (simp add: partly_featured_sheaf_def define_sheaf_data_def)
  note t = C5_missing_data_defaults[OF g, of square_engine "''volume''" 1 None]
  note t1 = t[THEN conjunct1]
  note t2 = t[THEN conjunct2, THEN conjunct1, rule_format, of 0 1 unit_weight]
  note t3 = t[THEN conjunct2, THEN conjunct2, rule_format]
  have 1: "\<exists>r. compute_persistent_cohomology square_engine partly_featured_sheaf ''volume''
                 = Inr r"
    using t1 by (simp add: square_engine_def split: sum.splits)
  have 2: "([0, 1], 1) \<in> set (simplex_tree_insertions partly_featured_sheaf square ''volume'')"
    using t2 e m by blast
  have 3: "estimate_cocycle_norm partly_featured_sheaf 0 1 None = Inr 6"
    using t3[of 0 "[(1, unit_weight), (3, unit_weight)]" "[0 \<mapsto> Num 5]"
             "[(0, 1) \<mapsto> PyNum 2]", OF conjI[OF n0 conjI[OF vf ef]]]
    by (simp add: inconsistency_def in_persistence_interval_def dict_get_def unit_weight_def)
  have 4: "estimate_cocycle_norm partly_featured_sheaf 1 1 None = Inr 0"
    using t3[of 1 "[(0, unit_weight), (2, unit_weight)]" "[0 \<mapsto> Num 5]"
             "[(0, 1) \<mapsto> PyNum 2]", OF conjI[OF n1 conjI[OF vf ef]]]
    by simp
  show ?thesis using g e m n0 1 2 3 4 by blast
qed



section \<open>Coboundary composition when the edges are stored sorted\<close>

text \<open>
  The composition of two consecutive coboundary matrices is zero as soon as every
  simplex is stored sorted.  The builder guarantees this in the dimensions 0 and 2 and
  more; for the 1-simplices it holds when the graph reports every edge with the smaller
  endpoint first, which is the case when the nodes were inserted in increasing order.
\<close>

subsection \<open>Positions and signs\<close>

lemma list_index_sorted:
  "sorted rho \<Longrightarrow> distinct rho \<Longrightarrow> v \<in> set rho \<Longrightarrow> list_index rho v = Inr (smaller (set rho) v)"
proof (induction rho)
  case Nil
  then show ?case by simp
next
  case (Cons x xs)
  show ?case
  proof (cases "x = v")
    case True
    have "{u \<in> set (x # xs). u < v} = {}" using Cons.prems(1) True by auto
    then show ?thesis using True by (simp add: smaller_def)
  next
    case False
    then have v: "v \<in> set xs" using Cons.prems(3) by simp
    then have lt: "x < v" using Cons.prems(1) False by auto
    have "{u \<in> set (x # xs). u < v} = insert x {u \<in> set xs. u < v}" using lt by auto
    moreover have "x \<notin> {u \<in> set xs. u < v}" using Cons.prems(2) by simp
    ultimately have "smaller (set (x # xs)) v = Suc (smaller (set xs) v)"
      by (simp add: smaller_def)
    moreover have "list_index xs v = Inr (smaller (set xs) v)"
      using Cons.IH Cons.prems v by simp
    ultimately show ?thesis using False by simp
  qed
qed

lemma sequence_err_map_Inr:
  "(\<And>x. x \<in> set xs \<Longrightarrow> f x = Inr (g x)) \<Longrightarrow> sequence_err (map f xs) = Inr (map g xs)"
  by (induction xs) auto

lemma orientation_sign_sorted:
  assumes "sorted sigma" "distinct sigma" "set tau \<subseteq> set sigma"
  shows "orientation_sign sigma tau = Inr (face_sign sigma tau)"
proof -
  have "sequence_err (map (list_index sigma) tau) = Inr (map (smaller (set sigma)) tau)"
    using assms by (intro sequence_err_map_Inr list_index_sorted) auto
  then show ?thesis using assms(3) by (simp add: orientation_sign_def face_sign_def)
qed

lemma smaller_insert:
  "finite S \<Longrightarrow> x \<notin> S \<Longrightarrow> smaller (insert x S) v = smaller S v + (if x < v then 1 else 0)"
proof -
  assume f: "finite S" and x: "x \<notin> S"
  show ?thesis
  proof (cases "x < v")
    case True
    then have "{u \<in> insert x S. u < v} = insert x {u \<in> S. u < v}" by auto
    then show ?thesis using f x True by (simp add: smaller_def)
  next
    case False
    then have "{u \<in> insert x S. u < v} = {u \<in> S. u < v}" by auto
    then show ?thesis using False by (simp add: smaller_def)
  qed
qed

lemma sum_indicator:
  "finite T \<Longrightarrow> (\<Sum>v\<in>T. f v + (if P v then 1 else 0 :: nat)) = sum f T + card {v \<in> T. P v}"
proof (induction T rule: finite_induct)
  case empty
  then show ?case by simp
next
  case (insert x F)
  have eq: "{v \<in> insert x F. P v} = (if P x then insert x {v \<in> F. P v} else {v \<in> F. P v})"
    by auto
  have nx: "x \<notin> {v \<in> F. P v}" using insert.hyps by simp
  have fin: "finite {v \<in> F. P v}" using insert.hyps(1) by simp
  have "card {v \<in> insert x F. P v} = card {v \<in> F. P v} + (if P x then 1 else 0)"
    unfolding eq using card_insert_disjoint[OF fin nx] by simp
  then show ?case using insert by simp
qed

lemma smaller_plus_greater:
  assumes "finite T" "a \<notin> T"
  shows "smaller T a + card {v \<in> T. a < v} = card T"
proof -
  have "{u \<in> T. u < a} \<union> {v \<in> T. a < v} = T"
    using assms(2) by (auto simp: not_less_iff_gr_or_eq)
  moreover have "{u \<in> T. u < a} \<inter> {v \<in> T. a < v} = {}" by auto
  ultimately show ?thesis
    using card_Un_disjoint[of "{u \<in> T. u < a}" "{v \<in> T. a < v}"] assms(1)
    by (simp add: smaller_def)
qed

lemma face_sign_set:
  assumes "distinct tau" "set tau \<subseteq> set sigma"
  shows "face_sign sigma tau = (- 1) ^ (\<Sum>v\<in>set tau. smaller (set sigma) v)"
  using assms by (simp add: face_sign_def sum_list_distinct_conv_sum_set)

lemma two_step_signs:
  assumes fin: "finite T" and a: "a \<notin> T" and b: "b \<notin> T" and ab: "a < b"
  defines "R \<equiv> insert a (insert b T)"
  shows "(\<Sum>v\<in>insert a T. smaller R v) + (\<Sum>v\<in>T. smaller (insert a T) v) + 1
           = (\<Sum>v\<in>insert b T. smaller R v) + (\<Sum>v\<in>T. smaller (insert b T) v)"
proof -
  have RT: "smaller R v = smaller T v + (if a < v then 1 else 0) + (if b < v then 1 else 0)" for v
    using fin a b ab unfolding R_def by (simp add: smaller_insert)
  have Ra: "smaller R a = smaller T a" using RT[of a] ab by simp
  have Rb: "smaller R b = smaller T b + 1" using RT[of b] ab by simp
  have s1: "(\<Sum>v\<in>T. smaller (insert a T) v) = sum (smaller T) T + card {v \<in> T. a < v}"
    using fin a by (simp add: smaller_insert sum_indicator)
  have s2: "(\<Sum>v\<in>T. smaller (insert b T) v) = sum (smaller T) T + card {v \<in> T. b < v}"
    using fin b by (simp add: smaller_insert sum_indicator)
  have l: "(\<Sum>v\<in>insert a T. smaller R v) = smaller T a + sum (smaller R) T"
    using fin a Ra by simp
  have r: "(\<Sum>v\<in>insert b T. smaller R v) = smaller T b + 1 + sum (smaller R) T"
    using fin b Rb by simp
  show ?thesis
    unfolding l r s1 s2
    using smaller_plus_greater[OF fin a] smaller_plus_greater[OF fin b] by linarith
qed


lemma composition_terms_cancel:
  assumes rho: "sorted rho" "distinct rho" "length rho = n + 2"
    and C1d: "distinct C1"
    and C1s: "\<And>sigma. sigma \<in> set C1 \<Longrightarrow> sorted sigma \<and> distinct sigma \<and> length sigma = n + 1"
    and tau: "distinct tau" "length tau = n"
    and closed: "\<And>x. x \<in> set rho \<Longrightarrow> \<exists>sigma\<in>set C1. set sigma = set rho - {x}"
  shows "sum_list (map (\<lambda>sigma. face_sign rho sigma * face_sign sigma tau) C1) = 0"
proof -
  let ?f = "\<lambda>sigma. face_sign rho sigma * face_sign sigma tau"
  have sum_set: "sum_list (map ?f C1) = sum ?f (set C1)"
    using C1d by (simp add: sum_list_distinct_conv_sum_set)
  show ?thesis
  proof (cases "set tau \<subseteq> set rho")
    case False
    have "?f sigma = 0" for sigma
      using False by (auto simp: face_sign_def)
    then have "map ?f C1 = map (\<lambda>sigma. 0) C1" by simp
    then show ?thesis by (simp only: sum_list_0)
  next
    case True
    define T where "T = set tau"
    define R where "R = set rho"
    have fT: "finite T" and cT: "card T = n"
      using tau by (simp_all add: T_def distinct_card)
    have cR: "card R = n + 2" using rho by (simp add: R_def distinct_card)
    have TR: "T \<subseteq> R" using True by (simp add: T_def R_def)
    have "card (R - T) = 2"
      using card_Diff_subset[OF fT TR] cT cR by simp
    then obtain x y where xy: "R - T = {x, y}" "x \<noteq> y" by (auto simp: card_2_iff)
    define a where "a = min x y"
    define b where "b = max x y"
    have ab: "a < b" "R - T = {a, b}" using xy by (auto simp: a_def b_def min_def max_def)
    have aT: "a \<notin> T" and bT: "b \<notin> T" and aR: "a \<in> R" and bR: "b \<in> R" using ab(2) by auto
    have Req: "R = insert a (insert b T)" using ab(2) TR by auto
    obtain sa where sa: "sa \<in> set C1" "set sa = R - {b}"
      using closed[of b] bR by (auto simp: R_def)
    obtain sb where sb: "sb \<in> set C1" "set sb = R - {a}"
      using closed[of a] aR by (auto simp: R_def)
    have sa_set: "set sa = insert a T" using sa(2) Req ab(1) aT bT by auto
    have sb_set: "set sb = insert b T" using sb(2) Req ab(1) aT bT by auto
    have neq: "sa \<noteq> sb" using sa_set sb_set ab(1) aT bT by auto
    have others: "?f sigma = 0" if "sigma \<in> set C1 - {sa, sb}" for sigma
    proof (rule ccontr)
      assume nz: "?f sigma \<noteq> 0"
      then have sub: "set sigma \<subseteq> R" "T \<subseteq> set sigma"
        by (auto simp: face_sign_def R_def T_def split: if_splits)
      have sig: "sorted sigma" "distinct sigma" "length sigma = n + 1" using C1s that by auto
      then have "card (set sigma) = n + 1" by (simp add: distinct_card)
      then have "card (set sigma - T) = 1"
        using card_Diff_subset[OF fT sub(2)] cT by simp
      then obtain z where z: "set sigma - T = {z}" by (auto simp: card_1_singleton_iff)
      then have "z \<in> R - T" using sub(1) by auto
      then have "z = a \<or> z = b" using ab(2) by auto
      moreover have "set sigma = insert z T" using z sub(2) by auto
      ultimately have "set sigma = set sa \<or> set sigma = set sb"
        using sa_set sb_set by auto
      moreover have "sorted sa" "distinct sa" "sorted sb" "distinct sb"
        using C1s sa(1) sb(1) by auto
      ultimately have "sigma = sa \<or> sigma = sb"
        using sig sorted_distinct_set_unique by blast
      then show False using that by auto
    qed
    have "sum ?f (set C1) = sum ?f {sa, sb}"
      using sa(1) sb(1) others by (intro sum.mono_neutral_right) auto
    also have "\<dots> = ?f sa + ?f sb" using neq by simp
    also have "\<dots> = 0"
    proof -
      have dsa: "distinct sa" and dsb: "distinct sb" using C1s sa(1) sb(1) by auto
      have suba: "set sa \<subseteq> set rho" and subb: "set sb \<subseteq> set rho"
        using sa(2) sb(2) by (auto simp: R_def)
      have ta: "set tau \<subseteq> set sa" and tb: "set tau \<subseteq> set sb"
        using sa_set sb_set by (auto simp: T_def)
      have 1: "face_sign rho sa = (- 1) ^ (\<Sum>v\<in>insert a T. smaller R v)"
        using face_sign_set[OF dsa suba] sa_set by (simp add: R_def)
      have 2: "face_sign sa tau = (- 1) ^ (\<Sum>v\<in>T. smaller (insert a T) v)"
        using face_sign_set[OF tau(1) ta] sa_set by (simp add: T_def)
      have 3: "face_sign rho sb = (- 1) ^ (\<Sum>v\<in>insert b T. smaller R v)"
        using face_sign_set[OF dsb subb] sb_set by (simp add: R_def)
      have 4: "face_sign sb tau = (- 1) ^ (\<Sum>v\<in>T. smaller (insert b T) v)"
        using face_sign_set[OF tau(1) tb] sb_set by (simp add: T_def)
      have e: "(\<Sum>v\<in>insert a T. smaller R v) + (\<Sum>v\<in>T. smaller (insert a T) v) + 1
                 = (\<Sum>v\<in>insert b T. smaller R v) + (\<Sum>v\<in>T. smaller (insert b T) v)"
        using two_step_signs[OF fT aT bT ab(1)] by (simp add: Req)
      have "?f sb = (- 1) ^ ((\<Sum>v\<in>insert a T. smaller R v) + (\<Sum>v\<in>T. smaller (insert a T) v) + 1)"
        unfolding 3 4 e by (simp add: power_add)
      also have "\<dots> = - ?f sa" unfolding 1 2 by (simp add: power_add)
      finally show ?thesis by simp
    qed
    finally show ?thesis using sum_set by simp
  qed
qed

subsection \<open>Entries of the matrices\<close>

lemma pick_simps [simp]:
  "pick j i [] = 0"
  "pick j i ((r, c, x) # ts) = (if r = j \<and> c = i then x else 0) + pick j i ts"
  "pick j i (ts @ us) = pick j i ts + pick j i us"
  by (simp_all add: pick_def)

lemma pick_row:
  "pick j i (row_triples p_simplices n j' sigma)
     = (if j = j' \<and> n \<le> i \<and> i < n + length p_simplices
        then face_sign sigma (p_simplices ! (i - n)) else 0)"
proof (induction p_simplices arbitrary: n)
  case Nil
  then show ?case by (simp add: row_triples_def)
next
  case (Cons tau rest)
  have split: "row_triples (tau # rest) n j' sigma
         = (if set tau \<subseteq> set sigma then [(j', n, face_sign sigma tau)] else [])
           @ row_triples rest (Suc n) j' sigma"
    by (simp add: row_triples_def)
  have z: "\<not> set tau \<subseteq> set sigma \<Longrightarrow> face_sign sigma tau = 0" by (simp add: face_sign_def)
  show ?case
  proof (cases "i = n")
    case True
    then show ?thesis unfolding split using Cons.IH[of "Suc n"] z by auto
  next
    case False
    have "i - n = Suc (i - Suc n)" if "n \<le> i" using that False by arith
    then have "(tau # rest) ! (i - n) = rest ! (i - Suc n)" if "n \<le> i" using that by simp
    then show ?thesis unfolding split using Cons.IH[of "Suc n"] False by auto
  qed
qed

lemma entry_pick: "entry M j i = pick j i (triples M)"
  by (simp add: entry_def pick_def)

lemma pick_rows:
  "pick j i (concat (map (\<lambda>x. row_triples p_simplices 0 (fst x) (snd x)) (enumerate m p1_simplices)))
     = (if m \<le> j \<and> j < m + length p1_simplices \<and> i < length p_simplices
        then face_sign (p1_simplices ! (j - m)) (p_simplices ! i) else 0)"
proof (induction p1_simplices arbitrary: m)
  case Nil
  then show ?case by simp
next
  case (Cons sigma rest)
  show ?case
  proof (cases "j = m")
    case True
    then show ?thesis using Cons.IH[of "Suc m"] by (simp add: pick_row)
  next
    case False
    have "j - m = Suc (j - Suc m)" if "m \<le> j" using that False by arith
    then have "(sigma # rest) ! (j - m) = rest ! (j - Suc m)" if "m \<le> j" using that by simp
    then show ?thesis using Cons.IH[of "Suc m"] False by (auto simp: pick_row)
  qed
qed

lemma coboundary_row_sorted:
  assumes "sorted sigma" "distinct sigma"
  shows "coboundary_row p_simplices (j, sigma) = map Inr (row_triples p_simplices 0 j sigma)"
proof -
  let ?F = "\<lambda>(i, tau). if set tau \<subseteq> set sigma
              then [case orientation_sign sigma tau of
                      Inl e \<Rightarrow> Inl e | Inr sign \<Rightarrow> Inr (j, i, sign)]
              else []"
  let ?G = "\<lambda>(i, tau). if set tau \<subseteq> set sigma then [(j, i, face_sign sigma tau)] else []"
  have FG: "?F x = map Inr (?G x)" for x
    using orientation_sign_sorted[OF assms] by (cases x) simp
  have "coboundary_row p_simplices (j, sigma) = concat (map ?F (enumerate 0 p_simplices))"
    by (simp add: coboundary_row_def)
  also have "\<dots> = concat (map (\<lambda>x. map Inr (?G x)) (enumerate 0 p_simplices))"
    by (rule arg_cong[where f = concat], rule map_cong[OF refl], rule FG)
  also have "\<dots> = map Inr (concat (map ?G (enumerate 0 p_simplices)))"
    by (simp only: map_concat map_map comp_def)
  finally show ?thesis by (simp only: row_triples_def)
qed

lemma sequence_err_Inr: "sequence_err (map Inr xs) = Inr xs"
  by (induction xs) auto

lemma compute_coboundary_matrix_sorted:
  assumes "complex s k = Some p_simplices" "complex s (k + 1) = Some p1_simplices"
    and "\<And>sigma. sigma \<in> set p1_simplices \<Longrightarrow> sorted sigma \<and> distinct sigma"
  shows "\<exists>D. compute_coboundary_matrix s k = Inr D
           \<and> shape D = (length p1_simplices, length p_simplices)
           \<and> (\<forall>j i. entry D j i =
                 (if j < length p1_simplices \<and> i < length p_simplices
                  then face_sign (p1_simplices ! j) (p_simplices ! i) else 0))"
proof -
  let ?ts = "concat (map (\<lambda>x. row_triples p_simplices 0 (fst x) (snd x)) (enumerate 0 p1_simplices))"
  have m: "map (coboundary_row p_simplices) (enumerate 0 p1_simplices)
          = map (\<lambda>x. map Inr (row_triples p_simplices 0 (fst x) (snd x))) (enumerate 0 p1_simplices)"
  proof (rule map_cong[OF refl])
    fix x assume "x \<in> set (enumerate 0 p1_simplices)"
    then have "fst x < length p1_simplices" "p1_simplices ! fst x = snd x"
      by (auto simp: in_set_enumerate_eq)
    then have "snd x \<in> set p1_simplices" using nth_mem by metis
    then have "sorted (snd x)" "distinct (snd x)" using assms(3) by auto
    then show "coboundary_row p_simplices x = map Inr (row_triples p_simplices 0 (fst x) (snd x))"
      using coboundary_row_sorted[of "snd x" p_simplices "fst x"] by simp
  qed
  have "concat (map (coboundary_row p_simplices) (enumerate 0 p1_simplices))
          = concat (map (\<lambda>x. map Inr (row_triples p_simplices 0 (fst x) (snd x)))
                      (enumerate 0 p1_simplices))"
    by (simp only: m)
  also have "\<dots> = map Inr ?ts"
    by (simp only: map_concat map_map comp_def)
  finally have "concat (map (coboundary_row p_simplices) (enumerate 0 p1_simplices)) = map Inr ?ts" .
  then have "compute_coboundary_matrix s k
               = Inr \<lparr>shape = (length p1_simplices, length p_simplices), triples = ?ts\<rparr>"
    using assms(1,2) by (simp add: compute_coboundary_matrix_def sequence_err_Inr)
  moreover have "entry \<lparr>shape = (length p1_simplices, length p_simplices), triples = ?ts\<rparr> j i
                   = (if j < length p1_simplices \<and> i < length p_simplices
                      then face_sign (p1_simplices ! j) (p_simplices ! i) else 0)" for j i
    using pick_rows[of j i p_simplices 0 p1_simplices] by (simp add: entry_pick)
  ultimately show ?thesis by simp
qed

lemma sum_list_nth_map: "sum_list (map (\<lambda>k. f (xs ! k)) [0..<length xs]) = sum_list (map f xs)"
proof -
  have "map f xs = map f (map ((!) xs) [0..<length xs])" by (simp only: map_nth)
  also have "\<dots> = map (\<lambda>k. f (xs ! k)) [0..<length xs]" by (simp only: map_map comp_def)
  finally show ?thesis by simp
qed

lemma coboundary_composition_zero:
  assumes cp: "complex s p = Some C0" "complex s (p + 1) = Some C1" "complex s (p + 2) = Some C2"
    and s0: "\<And>tau. tau \<in> set C0 \<Longrightarrow> distinct tau \<and> length tau = n"
    and d1: "distinct C1"
    and s1: "\<And>sigma. sigma \<in> set C1 \<Longrightarrow> sorted sigma \<and> distinct sigma \<and> length sigma = n + 1"
    and s2: "\<And>rho. rho \<in> set C2 \<Longrightarrow> sorted rho \<and> distinct rho \<and> length rho = n + 2"
    and closed: "\<And>rho x. rho \<in> set C2 \<Longrightarrow> x \<in> set rho \<Longrightarrow> \<exists>sigma\<in>set C1. set sigma = set rho - {x}"
  shows "\<exists>D0 D1. compute_coboundary_matrix s p = Inr D0
           \<and> compute_coboundary_matrix s (p + 1) = Inr D1
           \<and> (\<forall>j i. product_entry D1 D0 j i = 0)"
proof -
  obtain D0 where D0: "compute_coboundary_matrix s p = Inr D0"
      "shape D0 = (length C1, length C0)"
      "\<And>j i. entry D0 j i = (if j < length C1 \<and> i < length C0 then face_sign (C1 ! j) (C0 ! i) else 0)"
    using compute_coboundary_matrix_sorted[OF cp(1,2)] s1 by blast
  have cp2: "complex s (p + 1 + 1) = Some C2" using cp(3) by (simp add: add.assoc)
  obtain D1 where D1: "compute_coboundary_matrix s (p + 1) = Inr D1"
      "\<And>j i. entry D1 j i = (if j < length C2 \<and> i < length C1 then face_sign (C2 ! j) (C1 ! i) else 0)"
    using compute_coboundary_matrix_sorted[OF cp(2) cp2] s2 by blast
  have "product_entry D1 D0 j i = 0" for j i
  proof (cases "j < length C2 \<and> i < length C0")
    case False
    then have "entry D1 j k * entry D0 k i = 0" for k by (auto simp: D0(3) D1(2))
    then have "(\<lambda>k. entry D1 j k * entry D0 k i) = (\<lambda>k. 0)" by (intro ext)
    then show ?thesis by (simp only: product_entry_def sum_list_0)
  next
    case True
    let ?rho = "C2 ! j" and ?tau = "C0 ! i"
    have rho: "?rho \<in> set C2" and tau: "?tau \<in> set C0" using True by auto
    have "product_entry D1 D0 j i
            = sum_list (map (\<lambda>k. face_sign ?rho (C1 ! k) * face_sign (C1 ! k) ?tau) [0..<length C1])"
    proof -
      have eq: "map (\<lambda>k. entry D1 j k * entry D0 k i) [0..<length C1]
                   = map (\<lambda>k. face_sign ?rho (C1 ! k) * face_sign (C1 ! k) ?tau) [0..<length C1]"
      proof (rule map_cong[OF refl])
        fix k assume "k \<in> set [0..<length C1]"
        then show "entry D1 j k * entry D0 k i
                     = face_sign ?rho (C1 ! k) * face_sign (C1 ! k) ?tau"
          using True by (simp add: D0(3) D1(2))
      qed
      show ?thesis by (simp only: product_entry_def D0(2) fst_conv eq)
    qed
    also have "\<dots> = sum_list (map (\<lambda>sigma. face_sign ?rho sigma * face_sign sigma ?tau) C1)"
      by (rule sum_list_nth_map)
    also have "\<dots> = 0"
      using composition_terms_cancel[of ?rho n C1 ?tau] s2[OF rho] s1 d1 s0[OF tau] closed[OF rho]
      by blast
    finally show ?thesis .
  qed
  then show ?thesis using D0(1) D1(1) by blast
qed

subsection \<open>Built complexes\<close>

lemma edges_from_distinct:
  assumes "distinct (map fst g)" "\<And>n nbrs. (n, nbrs) \<in> set g \<Longrightarrow> distinct (map fst nbrs)"
  shows "distinct (map (\<lambda>(u, v, d). (u, v)) (edges_from seen g))"
  using assms
proof (induction g arbitrary: seen)
  case Nil
  then show ?case by simp
next
  case (Cons e g)
  obtain n nbrs where e: "e = (n, nbrs)" by (cases e)
  have dn: "distinct (map fst nbrs)" using Cons.prems(2)[of n nbrs] e by simp
  have first: "map (\<lambda>(u, v, d). (u, v))
                 (map (\<lambda>(nbr, dd). (n, nbr, dd)) (filter (\<lambda>(nbr, dd). nbr \<notin> set seen) nbrs))
               = map (Pair n) (map fst (filter (\<lambda>(nbr, dd). nbr \<notin> set seen) nbrs))"
    by (simp add: case_prod_beta comp_def)
  have d1: "distinct (map (Pair n) (map fst (filter (\<lambda>(nbr, dd). nbr \<notin> set seen) nbrs)))"
    using dn by (simp add: distinct_map_filter distinct_map inj_on_def)
  have d2: "distinct (map (\<lambda>(u, v, d). (u, v)) (edges_from (n # seen) g))"
    using Cons.IH[of "n # seen"] Cons.prems e by auto
  have disj: "u \<noteq> n" if mem: "(u, v, d) \<in> set (edges_from (n # seen) g)" for u v d
  proof -
    obtain nb where "(u, nb) \<in> set g" using edges_from_sound[OF mem] by blast
    then have "u \<in> set (map fst g)" by force
    then show ?thesis using Cons.prems(1) e by auto
  qed
  show ?case
    unfolding e edges_from.simps map_append first
    using d1 d2 disj by (auto simp: distinct_append)
qed

lemma wf_graph_edges_distinct:
  assumes "wf_graph g"
  shows "distinct (map (\<lambda>(u, v). [u, v]) (filtered_edges g threshold))"
proof -
  have "distinct (map (\<lambda>(u, v, d). (u, v)) (edges g))"
    unfolding edges_def using assms
    by (intro edges_from_distinct) (auto simp: wf_graph_def list_all_iff)
  then have "distinct (filtered_edges g threshold)"
    unfolding filtered_edges_def by (rule distinct_map_filter)
  then show ?thesis by (auto simp: distinct_map inj_on_def)
qed

lemma simplices_of_dim_distinct:
  assumes "wf_graph g"
  shows "distinct (simplices_of_dim g threshold k)"
proof -
  have dn: "distinct (nodes g)" using assms by (simp add: wf_graph_def nodes_def)
  have "distinct (map set (subseqs (nodes g)))" using dn by (rule distinct_set_subseqs)
  then have d: "distinct (map set (filter (\<lambda>clique. int (length clique) = k + 1 \<and> edges_ok g threshold clique)
                                  (enumerate_all_cliques g)))"
    unfolding enumerate_all_cliques_def by (intro distinct_map_filter)
  let ?cs = "filter (\<lambda>clique. int (length clique) = k + 1 \<and> edges_ok g threshold clique)
               (enumerate_all_cliques g)"
  have "distinct ?cs" "inj_on set (set ?cs)" using d by (simp_all add: distinct_map)
  moreover have "inj_on sort (set ?cs)"
  proof (rule inj_onI)
    fix x y assume xy: "x \<in> set ?cs" "y \<in> set ?cs" "sort x = sort y"
    then have "set (sort x) = set (sort y)" by simp
    then have "set x = set y" by simp
    then show "x = y" using \<open>inj_on set (set ?cs)\<close> xy(1,2) by (auto dest: inj_onD)
  qed
  ultimately show ?thesis by (simp add: simplices_of_dim_def distinct_map)
qed

lemma simplices_of_dim_shape:
  assumes "wf_graph g" "sigma \<in> set (simplices_of_dim g threshold k)"
  shows "sorted sigma \<and> distinct sigma \<and> int (length sigma) = k + 1"
proof -
  from assms(2) obtain c where c: "sigma = sort c" "c \<in> set (enumerate_all_cliques g)"
      "int (length c) = k + 1"
    by (auto simp: simplices_of_dim_def)
  have "distinct (nodes g)" using assms(1) by (simp add: wf_graph_def nodes_def)
  moreover have "subseq c (nodes g)" using c(2) by (simp add: enumerate_all_cliques_def)
  ultimately have "distinct c" using subseqs_distinctD[of c "nodes g"] by simp
  then show ?thesis using c by simp
qed

lemma built_complex_shape:
  assumes wf: "wf_graph g" and asc: "list_all (\<lambda>(u, v, d). u < v) (edges g)"
    and k: "0 \<le> k" "k \<le> max 1 (max_dim s)"
  shows "\<exists>C. complex (build_complex_from_graph s g threshold) k = Some C \<and> distinct C
           \<and> (\<forall>sigma\<in>set C. sorted sigma \<and> distinct sigma \<and> length sigma = nat k + 1)"
proof -
  consider "k = 0" | "k = 1" | "2 \<le> k" "k \<le> max_dim s" using k by linarith
  then show ?thesis
  proof cases
    case 1
    have "distinct (nodes g)" using wf by (simp add: wf_graph_def nodes_def)
    then have "distinct (map (\<lambda>v. [v]) (nodes g))" by (simp add: distinct_map inj_on_def)
    then show ?thesis using 1 by (auto simp: complex_build_0)
  next
    case 2
    have lt: "u < v" if "(u, v) \<in> set (filtered_edges g threshold)" for u v
      using that asc by (auto simp: filtered_edges_def list_all_iff)
    show ?thesis
      using 2 wf_graph_edges_distinct[OF wf, of threshold]
      by (auto simp: complex_build_1 dest: lt)
  next
    case 3
    have "sorted sigma \<and> distinct sigma \<and> length sigma = nat k + 1"
      if "sigma \<in> set (simplices_of_dim g threshold k)" for sigma
      using simplices_of_dim_shape[OF wf that] 3(1) by auto
    then show ?thesis
      using 3 simplices_of_dim_distinct[OF wf] by (auto simp: complex_build_higher)
  qed
qed

lemma built_coboundary_composition_zero:
  assumes wf: "wf_graph g" and asc: "list_all (\<lambda>(u, v, d). u < v) (edges g)"
    and p: "0 \<le> p" "p + 2 \<le> max_dim s"
  shows "\<exists>D0 D1.
           compute_coboundary_matrix (build_complex_from_graph s g threshold) p = Inr D0
           \<and> compute_coboundary_matrix (build_complex_from_graph s g threshold) (p + 1) = Inr D1
           \<and> (\<forall>j i. product_entry D1 D0 j i = 0)"
proof -
  let ?S = "build_complex_from_graph s g threshold"
  obtain C0 where C0: "complex ?S p = Some C0"
      "\<forall>sigma\<in>set C0. sorted sigma \<and> distinct sigma \<and> length sigma = nat p + 1"
    using built_complex_shape[OF wf asc, of p s threshold] p by auto
  obtain C1 where C1: "complex ?S (p + 1) = Some C1" "distinct C1"
      "\<forall>sigma\<in>set C1. sorted sigma \<and> distinct sigma \<and> length sigma = nat (p + 1) + 1"
    using built_complex_shape[OF wf asc, of "p + 1" s threshold] p by auto
  obtain C2 where C2: "complex ?S (p + 2) = Some C2"
      "\<forall>sigma\<in>set C2. sorted sigma \<and> distinct sigma \<and> length sigma = nat (p + 2) + 1"
    using built_complex_shape[OF wf asc, of "p + 2" s threshold] p by auto
  have n1: "nat (p + 1) + 1 = (nat p + 1) + 1" and n2: "nat (p + 2) + 1 = (nat p + 1) + 2"
    using p(1) by auto
  have closed: "\<exists>sigma\<in>set C1. set sigma = set rho - {x}" if "rho \<in> set C2" "x \<in> set rho" for rho x
  proof -
    have "distinct rho" "length rho = nat (p + 2) + 1" using C2(2) that(1) by auto
    then have "card (set rho - {x}) = nat (p + 2)" using that(2) by (simp add: distinct_card)
    then have c: "int (card (set rho - {x})) = p + 2" using p(1) by simp
    have "\<exists>faces tau. complex ?S (p + 2 - 1) = Some faces \<and> tau \<in> set faces \<and> set tau = set rho - {x}"
      using faces_of_built_complex[OF wf _ _ C2(1) that(1) _ c] p by auto
    then show ?thesis using C1(1) by (auto simp: algebra_simps)
  qed
  show ?thesis
    using coboundary_composition_zero[OF C0(1) C1(1) C2(1), of "nat p + 1"] C0(2) C1(2,3) C2(2) closed
    unfolding n1 n2 by blast
qed

lemma triangle_012_composition_zero:
  "\<exists>D0 D1.
     compute_coboundary_matrix (build_complex_from_graph (FinancialSheaf_init 2) triangle_012 0) 0
       = Inr D0
     \<and> compute_coboundary_matrix (build_complex_from_graph (FinancialSheaf_init 2) triangle_012 0)
         (0 + 1) = Inr D1
     \<and> (\<forall>j i. product_entry D1 D0 j i = 0)"
proof (rule built_coboundary_composition_zero)
  show "wf_graph triangle_012" by code_simp
  show "list_all (\<lambda>(u, v, d). u < v) (edges triangle_012)" by code_simp
  show "(0::int) \<le> 0" by simp
  show "0 + 2 \<le> max_dim (FinancialSheaf_init 2)" by (simp add: FinancialSheaf_init_def)
qed


section \<open>What holds of the stored simplices and of the scores\<close>

subsection \<open>Vertex sets of the stored simplices\<close>

text \<open>
  No two simplices stored in one dimension have the same vertex set: the nodes are
  distinct, the graph reports an edge once and in one direction, and a clique is
  enumerated once.
\<close>

lemma edges_from_not_seen:
  "(u, v, d) \<in> set (edges_from seen g) \<Longrightarrow> v \<notin> set seen"
  by (induction seen g rule: edges_from.induct) auto

lemma edges_from_first_is_node:
  "(u, v, d) \<in> set (edges_from seen g) \<Longrightarrow> u \<in> set (map fst g)"
  using edges_from_sound by force

lemma edges_from_no_reverse:
  assumes "distinct (map fst g)"
    and "(u, v, d) \<in> set (edges_from seen g)" and "(v, u, d') \<in> set (edges_from seen g)"
  shows "u = v"
  using assms
proof (induction g arbitrary: seen)
  case Nil
  then show ?case by simp
next
  case (Cons e g)
  obtain n nbrs where e: "e = (n, nbrs)" by (cases e)
  let ?hd = "map (\<lambda>(nbr, dd). (n, nbr, dd)) (filter (\<lambda>(nbr, dd). nbr \<notin> set seen) nbrs)"
  have mem: "x \<in> set (edges_from seen (e # g)) \<longleftrightarrow> x \<in> set ?hd \<or> x \<in> set (edges_from (n # seen) g)" for x
    by (simp add: e)
  have tl_not_n: "b \<noteq> n" if "(a, b, c) \<in> set (edges_from (n # seen) g)" for a b c
    using edges_from_not_seen[OF that] by simp
  have hd_n: "a = n" if "(a, b, c) \<in> set ?hd" for a b c using that by auto
  consider (hh) "(u, v, d) \<in> set ?hd" "(v, u, d') \<in> set ?hd"
    | (ht) "(u, v, d) \<in> set ?hd" "(v, u, d') \<in> set (edges_from (n # seen) g)"
    | (th) "(u, v, d) \<in> set (edges_from (n # seen) g)" "(v, u, d') \<in> set ?hd"
    | (tt) "(u, v, d) \<in> set (edges_from (n # seen) g)" "(v, u, d') \<in> set (edges_from (n # seen) g)"
    using Cons.prems(2,3) mem by blast
  then show ?case
  proof cases
    case hh
    then show ?thesis using hd_n by blast
  next
    case ht
    then show ?thesis using hd_n[OF ht(1)] tl_not_n[OF ht(2)] by simp
  next
    case th
    then show ?thesis using hd_n[OF th(2)] tl_not_n[OF th(1)] by simp
  next
    case tt
    then show ?thesis using Cons.IH[of "n # seen"] Cons.prems(1) by simp
  qed
qed

lemma cliques_sets_distinct:
  assumes "wf_graph g"
  shows "distinct (map set (filter P (enumerate_all_cliques g)))"
proof -
  have "distinct (nodes g)" using assms by (simp add: wf_graph_def nodes_def)
  then have "distinct (map set (subseqs (nodes g)))" by (rule distinct_set_subseqs)
  then show ?thesis unfolding enumerate_all_cliques_def by (intro distinct_map_filter)
qed

lemma built_complex_vertex_sets_distinct:
  assumes wf: "wf_graph g" and k: "0 \<le> k" "k \<le> max 1 (max_dim s)"
    and C: "complex (build_complex_from_graph s g threshold) k = Some C"
  shows "distinct (map set C)"
proof -
  consider "k = 0" | "k = 1" | "2 \<le> k" "k \<le> max_dim s" using k by linarith
  then show ?thesis
  proof cases
    case 1
    have "distinct (nodes g)" using wf by (simp add: wf_graph_def nodes_def)
    then have "distinct (map set (map (\<lambda>v. [v]) (nodes g)))"
      by (simp add: distinct_map inj_on_def)
    then show ?thesis using 1 C by (auto simp: complex_build_0 comp_def)
  next
    case 2
    have dk: "distinct (map fst g)" using wf by (simp add: wf_graph_def)
    have dp: "distinct (map (\<lambda>(u, v, d). (u, v)) (edges g))"
      unfolding edges_def using wf
      by (intro edges_from_distinct) (auto simp: wf_graph_def list_all_iff)
    then have df: "distinct (filtered_edges g threshold)"
      unfolding filtered_edges_def by (rule distinct_map_filter)
    have rev: "u = v" if uv: "(u, v) \<in> set (filtered_edges g threshold)"
        and vu: "(v, u) \<in> set (filtered_edges g threshold)" for u v
    proof -
      obtain d where d: "(u, v, d) \<in> set (edges_from [] g)"
        using uv by (auto simp: filtered_edges_def edges_def)
      obtain d' where d': "(v, u, d') \<in> set (edges_from [] g)"
        using vu by (auto simp: filtered_edges_def edges_def)
      note d d'
      then show ?thesis using edges_from_no_reverse[OF dk] by blast
    qed
    have "inj_on (\<lambda>(u, v). set [u, v]) (set (filtered_edges g threshold))"
    proof (rule inj_onI)
      fix x y
      assume xy: "x \<in> set (filtered_edges g threshold)" "y \<in> set (filtered_edges g threshold)"
        "(case x of (u, v) \<Rightarrow> set [u, v]) = (case y of (u, v) \<Rightarrow> set [u, v])"
      obtain a b where x: "x = (a, b)" by (cases x)
      obtain c d where y: "y = (c, d)" by (cases y)
      have "{a, b} = {c, d}" using xy(3) x y by simp
      then have "(a = c \<and> b = d) \<or> (a = d \<and> b = c)" by (auto simp: doubleton_eq_iff)
      then show "x = y" using rev[of a b] xy(1,2) x y by auto
    qed
    then have dm: "distinct (map (\<lambda>(u, v). set [u, v]) (filtered_edges g threshold))"
      using df by (simp only: distinct_map simp_thms)
    have eq: "map set (map (\<lambda>(u, v). [u, v]) (filtered_edges g threshold))
                = map (\<lambda>(u, v). set [u, v]) (filtered_edges g threshold)"
      by (rule nth_equalityI) (simp_all add: case_prod_beta)
    have "C = map (\<lambda>(u, v). [u, v]) (filtered_edges g threshold)"
      using 2 C by (simp add: complex_build_1)
    then show ?thesis using dm by (simp only: eq)
  next
    case 3
    have "map set (simplices_of_dim g threshold k)
            = map set (filter (\<lambda>clique. int (length clique) = k + 1 \<and> edges_ok g threshold clique)
                         (enumerate_all_cliques g))"
      by (simp add: simplices_of_dim_def comp_def)
    then show ?thesis using 3 C cliques_sets_distinct[OF wf] by (simp add: complex_build_higher)
  qed
qed

subsection \<open>Normalised scores when no raw score is negative\<close>

text \<open>
  When every raw per-vertex score is at least 0, every value that
  \<^verbatim>\<open>compute_all_scores\<close> returns lies between 0 and 1.
\<close>

lemma sequence_err_Inr_D: "sequence_err rs = Inr xs \<Longrightarrow> rs = map Inr xs"
proof (induction rs arbitrary: xs)
  case Nil
  then show ?case by simp
next
  case (Cons r rs)
  then show ?case by (cases r) (auto split: sum.splits)
qed

lemma fold_max_ge:
  fixes x :: real
  shows "x \<le> fold max xs x" and "y \<in> set xs \<Longrightarrow> y \<le> fold max xs x"
  using Max.set_eq_fold[of x xs, symmetric] by simp_all

lemma compute_all_scores_unit_interval:
  assumes res: "compute_all_scores sc persistence_weight norm_weight = Inr (sc', result)"
    and nonneg: "\<And>vertex score.
           compute_pcr_score (sheaf sc) vertex persistence_weight norm_weight = Inr score \<Longrightarrow>
           0 \<le> score"
    and mem: "(v, s) \<in> set result"
  shows "0 \<le> s \<and> s \<le> 1"
proof -
  obtain g where g: "scorer_graph sc = Some g"
    using res by (auto simp: compute_all_scores_def split: option.splits)
  let ?f = "\<lambda>vertex. case compute_pcr_score (sheaf sc) vertex persistence_weight norm_weight of
                       Inl e \<Rightarrow> Inl e | Inr score \<Rightarrow> Inr (vertex, score)"
  obtain raw where raw: "sequence_err (map ?f (nodes g)) = Inr raw"
    using res g by (auto simp: compute_all_scores_def split: sum.splits)
  have nn: "0 \<le> r" if "(w, r) \<in> set raw" for w r
  proof -
    have "map ?f (nodes g) = map Inr raw" using raw by (rule sequence_err_Inr_D)
    then have "Inr (w, r) \<in> set (map ?f (nodes g))" using that by simp
    then obtain vertex where "?f vertex = Inr (w, r)" by auto
    then have "compute_pcr_score (sheaf sc) vertex persistence_weight norm_weight = Inr r"
      by (auto split: sum.splits)
    then show ?thesis by (rule nonneg)
  qed
  define max_score where "max_score = (case map snd raw of [] \<Rightarrow> 1 | x # xs \<Rightarrow> fold max xs x)"
  have le: "r \<le> max_score" if "(w, r) \<in> set raw" for w r
  proof -
    have "r \<in> set (map snd raw)" using that by force
    then show ?thesis
      unfolding max_score_def using fold_max_ge
      by (cases "map snd raw") auto
  qed
  have result: "result = (if 0 < max_score then map (\<lambda>(v, s). (v, s / max_score)) raw else raw)"
    using res g raw by (auto simp: compute_all_scores_def Let_def max_score_def)
  show ?thesis
  proof (cases "0 < max_score")
    case True
    then obtain r where r: "(v, r) \<in> set raw" "s = r / max_score"
      using mem result by auto
    then show ?thesis using nn[OF r(1)] le[OF r(1)] True by simp
  next
    case False
    then have "(v, s) \<in> set raw" using mem result by simp
    then show ?thesis using nn le False by fastforce
  qed
qed

end
